theory Spec2Isabelle
  imports Main
begin

section \<open>Strings and formatting\<close>

text \<open>
  Strings are byte sequences (\<open>char list\<close>).  The helpers below are the library
  routines the two implementations call: \<open>strings.TrimRight\<close>, \<open>strings.Split\<close>,
  \<open>strings.Join\<close> (Go), \<open>String.prototype.split\<close> and \<open>Array.prototype.join\<close>
  (TypeScript), each for the one-character separator \<open>/\<close> the code passes, and the
  decimal rendering of \<open>%d\<close> and of a template literal.
\<close>

fun Split :: "string \<Rightarrow> char \<Rightarrow> string list" where
  "Split [] sep = [[]]"
| "Split (c # cs) sep =
     (if c = sep then [] # Split cs sep
      else (c # hd (Split cs sep)) # tl (Split cs sep))"

fun Join :: "string list \<Rightarrow> string \<Rightarrow> string" where
  "Join [] sep = []"
| "Join [p] sep = p"
| "Join (p # q # ps) sep = p @ sep @ Join (q # ps) sep"

definition TrimRight :: "string \<Rightarrow> char \<Rightarrow> string" where
  "TrimRight s cutset = rev (dropWhile (\<lambda>c. c = cutset) (rev s))"

definition digit :: "nat \<Rightarrow> char" where
  "digit d = ''0123456789'' ! d"

fun decimal :: "nat \<Rightarrow> string" where
  "decimal n = (if n < 10 then [digit n] else decimal (n div 10) @ [digit (n mod 10)])"

declare decimal.simps [simp del]

section \<open>The regular expressions\<close>

text \<open>
  Both implementations use two regular expressions, through Go's \<open>regexp\<close> and
  through the JavaScript engine.  Each expression is a sequence of one-character atoms
  carrying a quantifier, one of them inside capture group 1, possibly ended by \<open>$\<close>.
  \<open>rmatch\<close> is the leftmost-first, greedy match of such a sequence at the start of a
  text: a quantified atom first takes as much as it can and gives characters back when
  the rest of the expression fails.  It returns the text of group 1.  \<open>search\<close> tries
  the start positions from left to right, as an unanchored expression does.
\<close>

datatype quant = Once | Opt | Star | Plus

datatype item = Chars "char \<Rightarrow> bool" quant bool | EndOfText

fun grab :: "bool \<Rightarrow> string \<Rightarrow> char \<Rightarrow> string" where
  "grab g cap c = (if g then cap @ [c] else cap)"

fun orelse :: "'a option \<Rightarrow> 'a option \<Rightarrow> 'a option" where
  "orelse (Some x) y = Some x"
| "orelse None y = y"

function rmatch :: "item list \<Rightarrow> string \<Rightarrow> string \<Rightarrow> string option" where
  "rmatch [] s cap = Some cap"
| "rmatch (EndOfText # r) s cap = (if s = [] then rmatch r s cap else None)"
| "rmatch (Chars p Once g # r) [] cap = None"
| "rmatch (Chars p Once g # r) (c # cs) cap =
     (if p c then rmatch r cs (grab g cap c) else None)"
| "rmatch (Chars p Opt g # r) [] cap = rmatch r [] cap"
| "rmatch (Chars p Opt g # r) (c # cs) cap =
     orelse (if p c then rmatch r cs (grab g cap c) else None) (rmatch r (c # cs) cap)"
| "rmatch (Chars p Star g # r) [] cap = rmatch r [] cap"
| "rmatch (Chars p Star g # r) (c # cs) cap =
     orelse (if p c then rmatch (Chars p Star g # r) cs (grab g cap c) else None)
       (rmatch r (c # cs) cap)"
| "rmatch (Chars p Plus g # r) [] cap = None"
| "rmatch (Chars p Plus g # r) (c # cs) cap =
     (if p c then rmatch (Chars p Star g # r) cs (grab g cap c) else None)"
  by pat_completeness auto
termination
  by (relation "measures [\<lambda>(r, s, cap). length s, \<lambda>(r, s, cap). length r]") auto

fun search :: "item list \<Rightarrow> string \<Rightarrow> string option" where
  "search re [] = rmatch re [] []"
| "search re (c # cs) = orelse (rmatch re (c # cs) []) (search re cs)"

definition lits :: "string \<Rightarrow> item list" where
  "lits s = map (\<lambda>c. Chars (\<lambda>x. x = c) Once False) s"

text \<open>
  The character classes.  Go's \<open>\s\<close> is \<open>[\t\n\f\r ]\<close>; JavaScript's \<open>\s\<close> has in
  addition the vertical tab and, among the code units below 256, the no-break space.
  Go's \<open>.\<close> is every character but the newline; JavaScript's also leaves out the
  carriage return.
\<close>

definition go_space :: "char \<Rightarrow> bool" where
  "go_space c = (c = CHR 0x09 \<or> c = CHR 0x0A \<or> c = CHR 0x0C \<or> c = CHR 0x0D \<or> c = CHR 0x20)"

definition js_space :: "char \<Rightarrow> bool" where
  "js_space c = (c = CHR 0x09 \<or> c = CHR 0x0A \<or> c = CHR 0x0B \<or> c = CHR 0x0C \<or> c = CHR 0x0D
     \<or> c = CHR 0x20 \<or> c = CHR 0xA0)"

definition go_dot :: "char \<Rightarrow> bool" where
  "go_dot c = (c \<noteq> CHR 0x0A)"

definition js_dot :: "char \<Rightarrow> bool" where
  "js_dot c = (c \<noteq> CHR 0x0A \<and> c \<noteq> CHR 0x0D)"

definition quote :: "char \<Rightarrow> bool" where
  "quote c = (c = CHR 0x22 \<or> c = CHR 0x27)"

definition hostname_key :: string where
  "hostname_key = ''bmac.agent-install.openshift.io/hostname:''"

text \<open>
  \<open>bm-node-.+\.yaml$\<close> and
  \<open>bmac\.agent-install\.openshift\.io/hostname:\s*["']?([^"'\s]+)["']?\<close>, over the
  class of \<open>.\<close> and of \<open>\s\<close> of the engine that runs them.  (The Go source writes a
  literal newline into the negated class as well; \<open>\s\<close> already holds it.)
\<close>

definition bm_node_re :: "(char \<Rightarrow> bool) \<Rightarrow> item list" where
  "bm_node_re dot = lits ''bm-node-'' @ [Chars dot Plus False] @ lits ''.yaml'' @ [EndOfText]"

definition hostname_re :: "(char \<Rightarrow> bool) \<Rightarrow> item list" where
  "hostname_re space = lits hostname_key @
     [Chars space Star False, Chars quote Opt False,
      Chars (\<lambda>c. \<not> quote c \<and> \<not> space c) Plus True, Chars quote Opt False]"

definition bmNodeFileRegex :: "item list" where
  "bmNodeFileRegex = bm_node_re go_dot"

definition hostnameRegex :: "item list" where
  "hostnameRegex = hostname_re go_space"

definition bmNodeFileRegex_ts :: "item list" where
  "bmNodeFileRegex_ts = bm_node_re js_dot"

definition hostnameRegex_ts :: "item list" where
  "hostnameRegex_ts = hostname_re js_space"

text \<open>
  \<open>MatchString\<close> and \<open>RegExp.prototype.test\<close> say whether the expression matches
  somewhere; \<open>FindStringSubmatch\<close> and \<open>String.prototype.match\<close> return the leftmost
  match with its groups, of which the code reads only group 1 (Go tests
  \<open>len(match) > 1\<close>, which holds exactly when there is a match).
\<close>

definition MatchString :: "item list \<Rightarrow> string \<Rightarrow> bool" where
  "MatchString re s = (search re s \<noteq> None)"

definition FindStringSubmatch :: "item list \<Rightarrow> string \<Rightarrow> string option" where
  "FindStringSubmatch re s = search re s"

section \<open>Data model\<close>

text \<open>
  \<open>GiteaFile\<close> is one entry of a directory listing and \<open>SiteHostnameInfo\<close> the record
  reported for a site; both implementations use the same JSON fields.  A missing
  \<open>download_url\<close> is the empty string (Go's zero value; JavaScript's \<open>undefined\<close> is
  as falsy as \<open>''\<close>).
\<close>

record GiteaFile =
  Name :: string
  Type :: string
  DownloadURL :: string

record SiteHostnameInfo =
  SitePath :: string
  Hostnames :: "string list"
  BMNodeFiles :: "string list"
  Errors :: "string list"

section \<open>The Go backend\<close>

subsection \<open>Remote tree client\<close>

text \<open>
  What \<open>client.Get\<close> followed by \<open>ioutil.ReadAll\<close> can produce: an error of the
  transport (connection failure, timeout, too many redirects), or a response with its
  status code, status line and the outcome of reading the body.  The remote service is a
  snapshot: the same request gets the same answer during one run.  \<open>json_Unmarshal\<close>
  is the decoding of a body into \<open>[]GiteaFile\<close>, \<open>None\<close> when it returns an error.
\<close>

datatype http_result = GetFailed string | Responded nat string "string + string"

record http_Client =
  InsecureSkipVerify :: bool
  MinVersion :: nat
  MaxVersion :: nat
  Timeout :: nat

record go_world =
  http_Get :: "http_Client \<Rightarrow> string \<Rightarrow> http_result"
  json_Unmarshal :: "string \<Rightarrow> GiteaFile list option"

definition Second :: nat where
  "Second = 1000000000"

definition VersionTLS12 :: nat where
  "VersionTLS12 = 771"

text \<open>The \<open>http.Client\<close> that \<open>fetchURL\<close> builds for its request.\<close>

definition fetchURL_client :: http_Client where
  "fetchURL_client = \<lparr>InsecureSkipVerify = True, MinVersion = VersionTLS12,
     MaxVersion = VersionTLS12, Timeout = 15 * Second\<rparr>"

definition fetchURL :: "go_world \<Rightarrow> string \<Rightarrow> string + string" where
  "fetchURL w url =
     (case http_Get w fetchURL_client url of
        GetFailed err \<Rightarrow> Inl err
      | Responded StatusCode Status body \<Rightarrow>
          if StatusCode \<noteq> 200
          then Inl (''HTTP '' @ decimal StatusCode @ '': '' @ Status @ '' for '' @ url)
          else body)"

text \<open>
  The two URL builders slice \<open>urlParts[:len(urlParts)-2]\<close>, which panics when the
  repository URL has fewer than two parts: \<open>None\<close> is that panic.
\<close>

definition convertToGiteaAPIURL :: "string \<Rightarrow> string \<Rightarrow> string \<Rightarrow> string option" where
  "convertToGiteaAPIURL repoURL path branch =
     (let urlParts = Split (TrimRight repoURL CHR ''/'') CHR ''/''
      in if length urlParts < 2 then None
         else
           let baseURL = Join (take (length urlParts - 2) urlParts) ''/'';
               owner = urlParts ! (length urlParts - 2);
               repo = urlParts ! (length urlParts - 1);
               pathSegment = (if path \<noteq> [] then ''/'' @ path else [])
           in Some (baseURL @ ''/api/v1/repos/'' @ owner @ ''/'' @ repo @ ''/contents''
                    @ pathSegment @ ''?ref='' @ branch))"

definition constructRawURL :: "string \<Rightarrow> string \<Rightarrow> string \<Rightarrow> string option" where
  "constructRawURL repoURL filePath branch =
     (let urlParts = Split (TrimRight repoURL CHR ''/'') CHR ''/''
      in if length urlParts < 2 then None
         else
           let owner = urlParts ! (length urlParts - 2);
               repo = urlParts ! (length urlParts - 1);
               baseURL = Join (take (length urlParts - 2) urlParts) ''/''
           in Some (baseURL @ ''/'' @ owner @ ''/'' @ repo @ ''/raw/branch/'' @ branch
                    @ ''/'' @ filePath))"

text \<open>
  A listing is \<open>None\<close> on the panic, \<open>Some (Inl err)\<close> when the request fails and
  \<open>Some (Inr files)\<close> otherwise; a body that does not decode gives \<open>nil, nil\<close>.
\<close>

definition getGiteaDirectoryListing ::
    "go_world \<Rightarrow> string \<Rightarrow> string \<Rightarrow> string \<Rightarrow> (string + GiteaFile list) option" where
  "getGiteaDirectoryListing w repoURL path branch =
     (case convertToGiteaAPIURL repoURL path branch of
        None \<Rightarrow> None
      | Some apiURL \<Rightarrow>
          Some (case fetchURL w apiURL of
                  Inl err \<Rightarrow> Inl err
                | Inr body \<Rightarrow>
                    (case json_Unmarshal w body of
                       None \<Rightarrow> Inr []
                     | Some files \<Rightarrow> Inr files)))"

subsection \<open>Site classifier and site processor\<close>

definition isBMNodeFile :: "GiteaFile \<Rightarrow> bool" where
  "isBMNodeFile item = (Type item = ''file'' \<and> MatchString bmNodeFileRegex (Name item))"

fun isSiteDirectory :: "GiteaFile list \<Rightarrow> bool" where
  "isSiteDirectory [] = False"
| "isSiteDirectory (item # items) =
     (if isBMNodeFile item then True else isSiteDirectory items)"

text \<open>
  \<open>processFiles\<close> is the loop of \<open>processSiteDirectory\<close> over the listing, with the
  record built so far.  \<open>processSiteDirectory\<close> returns the record it sends on the
  channel: it sends exactly one, on either of its two ways out.
\<close>

fun processFiles ::
    "go_world \<Rightarrow> string \<Rightarrow> string \<Rightarrow> string \<Rightarrow> GiteaFile list \<Rightarrow> SiteHostnameInfo
      \<Rightarrow> SiteHostnameInfo option" where
  "processFiles w repoURL sitePath branch [] siteInfo = Some siteInfo"
| "processFiles w repoURL sitePath branch (file # items) siteInfo =
     (if isBMNodeFile file then
        (let siteInfo = siteInfo\<lparr>BMNodeFiles := BMNodeFiles siteInfo @ [Name file]\<rparr>
         in case constructRawURL repoURL (sitePath @ ''/'' @ Name file) branch of
              None \<Rightarrow> None
            | Some fileURL \<Rightarrow>
                (case fetchURL w fileURL of
                   Inl err \<Rightarrow>
                     processFiles w repoURL sitePath branch items
                       (siteInfo\<lparr>Errors := Errors siteInfo
                          @ [''Error processing '' @ Name file @ '': '' @ err]\<rparr>)
                 | Inr content \<Rightarrow>
                     (case FindStringSubmatch hostnameRegex content of
                        Some hostname \<Rightarrow>
                          processFiles w repoURL sitePath branch items
                            (siteInfo\<lparr>Hostnames := Hostnames siteInfo @ [hostname]\<rparr>)
                      | None \<Rightarrow>
                          processFiles w repoURL sitePath branch items
                            (siteInfo\<lparr>Errors := Errors siteInfo
                               @ [''No hostname annotation found in '' @ Name file]\<rparr>))))
      else processFiles w repoURL sitePath branch items siteInfo)"

definition processSiteDirectory ::
    "go_world \<Rightarrow> string \<Rightarrow> string \<Rightarrow> string \<Rightarrow> SiteHostnameInfo option" where
  "processSiteDirectory w repoURL sitePath branch =
     (let siteInfo = \<lparr>SitePath = sitePath, Hostnames = [], BMNodeFiles = [], Errors = []\<rparr>
      in case getGiteaDirectoryListing w repoURL sitePath branch of
           None \<Rightarrow> None
         | Some (Inl err) \<Rightarrow> Some (siteInfo\<lparr>Errors := Errors siteInfo @ [err]\<rparr>)
         | Some (Inr items) \<Rightarrow> processFiles w repoURL sitePath branch items siteInfo)"

subsection \<open>Recursive discovery coordinator\<close>

text \<open>
  A goroutine is the sequence of its operations on the shared objects: the wait group,
  the channel and the scheduler.  The listing and the fetches of one call of
  \<open>discoverSitesRecursively\<close> are answers of the snapshot, so the call is the list of
  what it does after them, in program order: it sends the site's record when the
  directory is a site, registers and starts one goroutine for each subdirectory, and
  runs the deferred \<open>wg.Done()\<close> last (also after a panic).
\<close>

datatype action = Send SiteHostnameInfo | WgAdd | Go string | WgDone | WgWait | Close | Panic

definition discoverSitesRecursively ::
    "go_world \<Rightarrow> string \<Rightarrow> string \<Rightarrow> string \<Rightarrow> action list" where
  "discoverSitesRecursively w repoURL currentPath branch =
     (case getGiteaDirectoryListing w repoURL currentPath branch of
        None \<Rightarrow> [Panic, WgDone]
      | Some (Inl err) \<Rightarrow> [WgDone]
      | Some (Inr items) \<Rightarrow>
          (if isSiteDirectory items
           then (let pathKey = (if currentPath = [] then ''root'' else currentPath)
                 in case processSiteDirectory w repoURL pathKey branch of
                      None \<Rightarrow> [Panic]
                    | Some siteInfo \<Rightarrow> [Send siteInfo])
           else [])
          @ concat (map (\<lambda>subdir.
                [WgAdd, Go (if currentPath \<noteq> [] then currentPath @ ''/'' @ Name subdir
                            else Name subdir)])
              (filter (\<lambda>subdir. Type subdir = ''dir'') items))
          @ [WgDone])"

definition extractHostnamesFromGiteaRepository :: "action list" where
  "extractHostnamesFromGiteaRepository = [WgAdd, Go [], WgWait]"

text \<open>
  The goroutine that \<open>dataHandler\<close> starts runs the extraction and then its deferred
  \<open>close(siteInfoChan)\<close>.  The handler itself is the consumer: it receives from the
  unbuffered channel until the channel is closed, then leaves its loop.
\<close>

definition producer_program :: "action list" where
  "producer_program = extractHostnamesFromGiteaRepository @ [Close]"

datatype event = Published string SiteHostnameInfo | Spawned string string

record system =
  producer :: "action list"
  branches :: "(string \<times> action list) list"
  counter :: int
  closed :: bool
  received :: "SiteHostnameInfo list"
  finished :: bool
  crashed :: bool
  trace :: "event list"

definition initial :: system where
  "initial = \<lparr>producer = producer_program, branches = [], counter = 0, closed = False,
     received = [], finished = False, crashed = False, trace = []\<rparr>"

text \<open>
  One step of the whole program: some goroutine performs its next operation.  A branch
  is a pair of the directory it explores and the operations it still has to perform; it
  is outstanding while that list is not empty.  \<open>wg.Wait()\<close> returns only at counter
  zero; a send is taken by the consumer, and panics on a closed channel; \<open>wg.Done()\<close>
  below zero panics; a panic ends the process.  The trace records, in order, each
  publication with the directory it is for and each start of a child branch.
\<close>

inductive step :: "go_world \<Rightarrow> string \<Rightarrow> string \<Rightarrow> system \<Rightarrow> system \<Rightarrow> bool"
  for w :: go_world and repoURL :: string and branch :: string where
  producer_add:
    "\<not> crashed s \<Longrightarrow> producer s = WgAdd # r \<Longrightarrow>
     step w repoURL branch s (s\<lparr>producer := r, counter := counter s + 1\<rparr>)"
| producer_go:
    "\<not> crashed s \<Longrightarrow> producer s = Go p # r \<Longrightarrow>
     step w repoURL branch s
       (s\<lparr>producer := r,
          branches := branches s @ [(p, discoverSitesRecursively w repoURL p branch)]\<rparr>)"
| producer_wait:
    "\<not> crashed s \<Longrightarrow> producer s = WgWait # r \<Longrightarrow> counter s = 0 \<Longrightarrow>
     step w repoURL branch s (s\<lparr>producer := r\<rparr>)"
| producer_close:
    "\<not> crashed s \<Longrightarrow> producer s = Close # r \<Longrightarrow> \<not> closed s \<Longrightarrow>
     step w repoURL branch s (s\<lparr>producer := r, closed := True\<rparr>)"
| producer_close_closed:
    "\<not> crashed s \<Longrightarrow> producer s = Close # r \<Longrightarrow> closed s \<Longrightarrow>
     step w repoURL branch s (s\<lparr>crashed := True\<rparr>)"
| branch_send:
    "\<not> crashed s \<Longrightarrow> branches s = xs @ (p, Send siteInfo # r) # ys \<Longrightarrow> \<not> closed s \<Longrightarrow>
     step w repoURL branch s
       (s\<lparr>branches := xs @ (p, r) # ys, received := received s @ [siteInfo],
          trace := trace s @ [Published p siteInfo]\<rparr>)"
| branch_send_closed:
    "\<not> crashed s \<Longrightarrow> branches s = xs @ (p, Send siteInfo # r) # ys \<Longrightarrow> closed s \<Longrightarrow>
     step w repoURL branch s (s\<lparr>crashed := True\<rparr>)"
| branch_add:
    "\<not> crashed s \<Longrightarrow> branches s = xs @ (p, WgAdd # r) # ys \<Longrightarrow>
     step w repoURL branch s (s\<lparr>branches := xs @ (p, r) # ys, counter := counter s + 1\<rparr>)"
| branch_go:
    "\<not> crashed s \<Longrightarrow> branches s = xs @ (p, Go d # r) # ys \<Longrightarrow>
     step w repoURL branch s
       (s\<lparr>branches := xs @ (p, r) # ys @ [(d, discoverSitesRecursively w repoURL d branch)],
          trace := trace s @ [Spawned p d]\<rparr>)"
| branch_done:
    "\<not> crashed s \<Longrightarrow> branches s = xs @ (p, WgDone # r) # ys \<Longrightarrow> 0 < counter s \<Longrightarrow>
     step w repoURL branch s (s\<lparr>branches := xs @ (p, r) # ys, counter := counter s - 1\<rparr>)"
| branch_done_negative:
    "\<not> crashed s \<Longrightarrow> branches s = xs @ (p, WgDone # r) # ys \<Longrightarrow> counter s \<le> 0 \<Longrightarrow>
     step w repoURL branch s (s\<lparr>crashed := True\<rparr>)"
| branch_panic:
    "\<not> crashed s \<Longrightarrow> branches s = xs @ (p, Panic # r) # ys \<Longrightarrow>
     step w repoURL branch s (s\<lparr>crashed := True\<rparr>)"
| consumer_finish:
    "\<not> crashed s \<Longrightarrow> closed s \<Longrightarrow> \<not> finished s \<Longrightarrow>
     step w repoURL branch s (s\<lparr>finished := True\<rparr>)"

inductive reachable :: "go_world \<Rightarrow> string \<Rightarrow> string \<Rightarrow> system \<Rightarrow> bool"
  for w :: go_world and repoURL :: string and branch :: string where
  reachable_initial: "reachable w repoURL branch initial"
| reachable_step:
    "reachable w repoURL branch s \<Longrightarrow> step w repoURL branch s s' \<Longrightarrow>
     reachable w repoURL branch s'"

inductive run :: "go_world \<Rightarrow> string \<Rightarrow> string \<Rightarrow> nat \<Rightarrow> system \<Rightarrow> bool"
  for w :: go_world and repoURL :: string and branch :: string where
  run_initial: "run w repoURL branch 0 initial"
| run_step:
    "run w repoURL branch n s \<Longrightarrow> step w repoURL branch s s' \<Longrightarrow>
     run w repoURL branch (Suc n) s'"

section \<open>The TypeScript extractor\<close>

subsection \<open>Remote tree client\<close>

text \<open>
  How one \<open>client.get\<close> goes, as the runtime reports it to the listeners that
  \<open>fetchUrl\<close> registers.  The call itself throws (an invalid URL, an unsupported
  protocol): the executor of the promise throws with it and the promise is rejected
  with that error.  Or the request emits \<open>error\<close>.  Or its \<open>timeout\<close> event arrives
  before any response.  Or the callback is called with a response: its \<open>statusCode\<close>,
  its \<open>statusMessage\<close>, its \<open>location\<close> header (empty when absent) and what becomes
  of its body.  \<open>fetchUrl\<close> listens to \<open>data\<close> and \<open>end\<close> of a response with status
  200, and to nothing else of it: the body either ends, with the chunks received
  (\<open>End\<close>); or stays silent until the \<open>timeout\<close> event of the request (\<open>Idle\<close>); or
  the connection is cut before the end (\<open>Aborted\<close>), which the response reports by
  events that have no listener.

  \<open>None\<close> is a promise that never settles, \<open>Some (Inl message)\<close> a rejection and
  \<open>Some (Inr data)\<close> the resolved body.  \<open>fetchUrl\<close> follows redirects by calling
  itself, with no bound on their number.  \<open>JSON_parse\<close> is \<open>JSON.parse\<close> followed by
  \<open>Array.isArray\<close>: \<open>None\<close> when the first throws or the second is false.
\<close>

datatype node_body = End string | Idle | Aborted

datatype node_result =
    Throws string
  | RequestError string
  | RequestTimeout
  | Response nat string string node_body

record ts_world =
  client_get :: "nat \<Rightarrow> string \<Rightarrow> node_result"
  JSON_parse :: "string \<Rightarrow> GiteaFile list option"

partial_function (option) fetchUrl :: "ts_world \<Rightarrow> string \<Rightarrow> (string + string) option" where
  "fetchUrl w url =
     (case client_get w 15000 url of
        Throws message \<Rightarrow> Some (Inl message)
      | RequestError message \<Rightarrow> Some (Inl (''Request failed for '' @ url @ '': '' @ message))
      | RequestTimeout \<Rightarrow> Some (Inl (''Request timeout for '' @ url))
      | Response statusCode statusMessage location body \<Rightarrow>
          if (statusCode = 301 \<or> statusCode = 302) \<and> location \<noteq> [] then fetchUrl w location
          else if statusCode \<noteq> 200
          then Some (Inl (''HTTP '' @ decimal statusCode @ '': '' @ statusMessage
                          @ '' for '' @ url))
          else (case body of
                  End data \<Rightarrow> Some (Inr data)
                | Idle \<Rightarrow> Some (Inl (''Request timeout for '' @ url))
                | Aborted \<Rightarrow> None))"

text \<open>
  \<open>repoUrl.replace(/\/$/, '')\<close> drops one trailing slash; an index outside the array
  reads \<open>undefined\<close>, which a template literal prints as such.
\<close>

definition dropSlash :: "string \<Rightarrow> string" where
  "dropSlash s = (if s \<noteq> [] \<and> last s = CHR ''/'' then butlast s else s)"

definition part :: "string list \<Rightarrow> int \<Rightarrow> string" where
  "part xs i = (if 0 \<le> i \<and> i < int (length xs) then xs ! nat i else ''undefined'')"

definition convertToGiteaApiUrl :: "string \<Rightarrow> string \<Rightarrow> string \<Rightarrow> string" where
  "convertToGiteaApiUrl repoUrl path branch =
     (let urlParts = Split (dropSlash repoUrl) CHR ''/'';
          baseUrl = Join (take (length urlParts - 2) urlParts) ''/'';
          owner = part urlParts (int (length urlParts) - 2);
          repo = part urlParts (int (length urlParts) - 1);
          pathSegment = (if path \<noteq> [] then ''/'' @ path else [])
      in baseUrl @ ''/api/v1/repos/'' @ owner @ ''/'' @ repo @ ''/contents'' @ pathSegment
         @ ''?ref='' @ branch)"

definition constructRawUrl :: "string \<Rightarrow> string \<Rightarrow> string \<Rightarrow> string" where
  "constructRawUrl repoUrl filePath branch =
     (let urlParts = Split (dropSlash repoUrl) CHR ''/'';
          owner = part urlParts (int (length urlParts) - 2);
          repo = part urlParts (int (length urlParts) - 1);
          baseUrl = Join (take (length urlParts - 2) urlParts) ''/''
      in baseUrl @ ''/'' @ owner @ ''/'' @ repo @ ''/raw/branch/'' @ branch @ ''/'' @ filePath)"

text \<open>The \<open>catch\<close> of \<open>getGiteaDirectoryListing\<close> turns every failure into \<open>[]\<close>.\<close>

definition getGiteaDirectoryListing_ts ::
    "ts_world \<Rightarrow> string \<Rightarrow> string \<Rightarrow> string \<Rightarrow> GiteaFile list option" where
  "getGiteaDirectoryListing_ts w repoUrl path branch =
     (case fetchUrl w (convertToGiteaApiUrl repoUrl path branch) of
        None \<Rightarrow> None
      | Some (Inl message) \<Rightarrow> Some []
      | Some (Inr response) \<Rightarrow>
          (case JSON_parse w response of
             None \<Rightarrow> Some []
           | Some items \<Rightarrow> Some items))"

subsection \<open>Site classifier, annotation extractor and site processor\<close>

definition isBMNodeFile_ts :: "GiteaFile \<Rightarrow> bool" where
  "isBMNodeFile_ts item =
     (Type item = ''file'' \<and> Name item \<noteq> [] \<and> MatchString bmNodeFileRegex_ts (Name item))"

definition isSiteDirectory_ts :: "GiteaFile list \<Rightarrow> bool" where
  "isSiteDirectory_ts items = list_ex isBMNodeFile_ts items"

definition extractHostnameFromContent :: "string \<Rightarrow> string option" where
  "extractHostnameFromContent content = FindStringSubmatch hostnameRegex_ts content"

text \<open>
  \<open>processFiles_ts\<close> is the loop over the filtered files.  With entries whose fields
  are strings nothing in \<open>processSiteDirectory\<close> throws outside the inner \<open>try\<close>, so
  its outer \<open>catch\<close> has no branch here.
\<close>

fun processFiles_ts ::
    "ts_world \<Rightarrow> string \<Rightarrow> string \<Rightarrow> string \<Rightarrow> GiteaFile list \<Rightarrow> SiteHostnameInfo
      \<Rightarrow> SiteHostnameInfo option" where
  "processFiles_ts w repoUrl sitePath branch [] siteInfo = Some siteInfo"
| "processFiles_ts w repoUrl sitePath branch (file # bmNodeFiles) siteInfo =
     (let fileName = Name file;
          fileUrl = (if DownloadURL file \<noteq> [] then DownloadURL file
                     else constructRawUrl repoUrl (sitePath @ ''/'' @ fileName) branch);
          siteInfo = siteInfo\<lparr>BMNodeFiles := BMNodeFiles siteInfo @ [fileName]\<rparr>
      in case fetchUrl w fileUrl of
           None \<Rightarrow> None
         | Some (Inr content) \<Rightarrow>
             (case extractHostnameFromContent content of
                Some hostname \<Rightarrow>
                  if hostname \<noteq> []
                  then processFiles_ts w repoUrl sitePath branch bmNodeFiles
                         (siteInfo\<lparr>Hostnames := Hostnames siteInfo @ [hostname]\<rparr>)
                  else processFiles_ts w repoUrl sitePath branch bmNodeFiles
                         (siteInfo\<lparr>Errors := Errors siteInfo
                            @ [''No hostname annotation found in '' @ fileName]\<rparr>)
              | None \<Rightarrow>
                  processFiles_ts w repoUrl sitePath branch bmNodeFiles
                    (siteInfo\<lparr>Errors := Errors siteInfo
                       @ [''No hostname annotation found in '' @ fileName]\<rparr>))
         | Some (Inl message) \<Rightarrow>
             processFiles_ts w repoUrl sitePath branch bmNodeFiles
               (siteInfo\<lparr>Errors := Errors siteInfo
                  @ [''Error processing '' @ fileName @ '': '' @ message]\<rparr>))"

definition processSiteDirectory_ts ::
    "ts_world \<Rightarrow> string \<Rightarrow> string \<Rightarrow> string \<Rightarrow> SiteHostnameInfo option" where
  "processSiteDirectory_ts w repoUrl sitePath branch =
     (let siteInfo = \<lparr>SitePath = sitePath, Hostnames = [], BMNodeFiles = [], Errors = []\<rparr>
      in case getGiteaDirectoryListing_ts w repoUrl sitePath branch of
           None \<Rightarrow> None
         | Some items \<Rightarrow>
             processFiles_ts w repoUrl sitePath branch (filter isBMNodeFile_ts items) siteInfo)"

subsection \<open>Recursive discovery\<close>

text \<open>
  The accumulator is a JavaScript \<open>Map\<close>: an association list in insertion order,
  where \<open>set\<close> on a key already present replaces its value in place.  The walk awaits
  each subdirectory in turn; it recurses as deep as the remote tree is, so the model
  takes fuel and \<open>None\<close> is "no answer within this depth" (or a fetch that never
  settles).
\<close>

fun Map_set :: "string \<Rightarrow> 'v \<Rightarrow> (string \<times> 'v) list \<Rightarrow> (string \<times> 'v) list" where
  "Map_set k v [] = [(k, v)]"
| "Map_set k v ((k', v') # m) = (if k' = k then (k, v) # m else (k', v') # Map_set k v m)"

fun forEach :: "('a \<Rightarrow> 's \<Rightarrow> 's option) \<Rightarrow> 'a list \<Rightarrow> 's \<Rightarrow> 's option" where
  "forEach f [] st = Some st"
| "forEach f (x # xs) st = (case f x st of None \<Rightarrow> None | Some st' \<Rightarrow> forEach f xs st')"

fun discoverSitesRecursively_ts ::
    "nat \<Rightarrow> ts_world \<Rightarrow> string \<Rightarrow> string \<Rightarrow> string \<Rightarrow> (string \<times> SiteHostnameInfo) list
      \<Rightarrow> (string \<times> SiteHostnameInfo) list option" where
  "discoverSitesRecursively_ts 0 w repoUrl currentPath branch siteMap = None"
| "discoverSitesRecursively_ts (Suc fuel) w repoUrl currentPath branch siteMap =
     (case getGiteaDirectoryListing_ts w repoUrl currentPath branch of
        None \<Rightarrow> None
      | Some items \<Rightarrow>
          (case (if isSiteDirectory_ts items
                 then (case processSiteDirectory_ts w repoUrl currentPath branch of
                         None \<Rightarrow> None
                       | Some siteInfo \<Rightarrow>
                           Some (Map_set (if currentPath \<noteq> [] then currentPath else ''root'')
                                   siteInfo siteMap))
                 else Some siteMap) of
             None \<Rightarrow> None
           | Some siteMap \<Rightarrow>
               forEach
                 (\<lambda>subdir. discoverSitesRecursively_ts fuel w repoUrl
                    (if currentPath \<noteq> [] then currentPath @ ''/'' @ Name subdir else Name subdir)
                    branch)
                 (filter (\<lambda>item. Type item = ''dir'') items) siteMap))"

definition extractHostnamesFromGiteaRepository_ts ::
    "nat \<Rightarrow> ts_world \<Rightarrow> string \<Rightarrow> string \<Rightarrow> (string \<times> SiteHostnameInfo) list option" where
  "extractHostnamesFromGiteaRepository_ts fuel w repoUrl branch =
     discoverSitesRecursively_ts fuel w repoUrl [] branch []"

section \<open>Notions used in the statements\<close>

subsection \<open>The annotation\<close>

text \<open>
  What follows the key at one position, as a function: skip whitespace, skip one quote
  if there is one, and take the characters up to the next whitespace or quote; there is
  a value when that is not empty.
\<close>

definition unquote :: "string \<Rightarrow> string" where
  "unquote s = (case s of [] \<Rightarrow> [] | c # cs \<Rightarrow> if quote c then cs else s)"

definition annotation :: "(char \<Rightarrow> bool) \<Rightarrow> string \<Rightarrow> string option" where
  "annotation sp s =
     (let v = takeWhile (\<lambda>c. \<not> quote c \<and> \<not> sp c) (unquote (dropWhile sp s))
      in if v = [] then None else Some v)"




text \<open>
  The reading that holds of the code: the annotation occurs at position \<open>i\<close> of the
  content with value \<open>v\<close> when the content reads there the key, whitespace, an optional
  single or double quote, the value, and then its end or a character that cannot
  continue the value (a closing quote, whitespace).  A value is one or more
  characters that are neither whitespace nor a quote.  Whitespace is the class \<open>\s\<close> of
  the engine, to which the line breaks belong: the whitespace after the key may run
  over the end of the line, and the value then stands on a later line.
  \<open>first_annotation\<close> is the value of the leftmost occurrence.
\<close>

definition plain_value :: "(char \<Rightarrow> bool) \<Rightarrow> string \<Rightarrow> bool" where
  "plain_value sp v = (v \<noteq> [] \<and> (\<forall>c\<in>set v. \<not> quote c \<and> \<not> sp c))"

definition annotation_at :: "(char \<Rightarrow> bool) \<Rightarrow> string \<Rightarrow> nat \<Rightarrow> string \<Rightarrow> bool" where
  "annotation_at sp content i v =
     (i \<le> length content \<and>
      (\<exists>ws q rest. drop i content = hostname_key @ ws @ q @ v @ rest
         \<and> (\<forall>c\<in>set ws. sp c) \<and> (q = [] \<or> q = [CHR 0x22] \<or> q = [CHR 0x27])
         \<and> plain_value sp v \<and> (rest = [] \<or> quote (hd rest) \<or> sp (hd rest))))"

definition first_annotation :: "(char \<Rightarrow> bool) \<Rightarrow> string \<Rightarrow> string \<Rightarrow> bool" where
  "first_annotation sp content v =
     (\<exists>i. annotation_at sp content i v \<and> (\<forall>j<i. \<forall>u. \<not> annotation_at sp content j u))"


subsection \<open>Outcome of one matched file\<close>

text \<open>
  A matched file succeeds when its content is fetched and holds the annotation; it fails
  on a fetch failure or an absent annotation.  \<open>file_url_ts\<close> is the locator the
  TypeScript processor fetches.  \<open>tallies r n k\<close>: the record has \<open>n\<close> matched files,
  \<open>k\<close> errors and \<open>n - k\<close> hostnames.
\<close>

definition file_succeeds :: "go_world \<Rightarrow> string \<Rightarrow> string \<Rightarrow> string \<Rightarrow> GiteaFile \<Rightarrow> bool" where
  "file_succeeds w repoURL sitePath branch file =
     (case constructRawURL repoURL (sitePath @ ''/'' @ Name file) branch of
        None \<Rightarrow> False
      | Some fileURL \<Rightarrow>
          (case fetchURL w fileURL of
             Inl err \<Rightarrow> False
           | Inr content \<Rightarrow> FindStringSubmatch hostnameRegex content \<noteq> None))"

definition file_url_ts :: "string \<Rightarrow> string \<Rightarrow> string \<Rightarrow> GiteaFile \<Rightarrow> string" where
  "file_url_ts repoUrl sitePath branch file =
     (if DownloadURL file \<noteq> [] then DownloadURL file
      else constructRawUrl repoUrl (sitePath @ ''/'' @ Name file) branch)"

definition file_succeeds_ts :: "ts_world \<Rightarrow> string \<Rightarrow> string \<Rightarrow> string \<Rightarrow> GiteaFile \<Rightarrow> bool" where
  "file_succeeds_ts w repoUrl sitePath branch file =
     (case fetchUrl w (file_url_ts repoUrl sitePath branch file) of
        Some (Inr content) \<Rightarrow> extractHostnameFromContent content \<noteq> None
      | _ \<Rightarrow> False)"

definition tallies :: "SiteHostnameInfo \<Rightarrow> nat \<Rightarrow> nat \<Rightarrow> bool" where
  "tallies r n k =
     (length (BMNodeFiles r) = n \<and> length (Errors r) = k \<and> length (Hostnames r) = n - k \<and> k \<le> n)"

text \<open>
  What one matched file contributes to the record, given what its fetch returned: the
  hostname read from the content, or one error message (the fetch failed, or the
  content holds no annotation).  \<open>record_of\<close> is the record made of the matched files
  and of their contributions, in the order of the listing.
\<close>

datatype outcome = Hostname string | Failure string

definition outcome_of :: "(string \<Rightarrow> string option) \<Rightarrow> string \<Rightarrow> string + string \<Rightarrow> outcome" where
  "outcome_of extract fileName fetched =
     (case fetched of
        Inl err \<Rightarrow> Failure (''Error processing '' @ fileName @ '': '' @ err)
      | Inr content \<Rightarrow>
          (case extract content of
             Some hostname \<Rightarrow> Hostname hostname
           | None \<Rightarrow> Failure (''No hostname annotation found in '' @ fileName)))"

fun hostnames_of :: "outcome list \<Rightarrow> string list" where
  "hostnames_of [] = []"
| "hostnames_of (Hostname h # os) = h # hostnames_of os"
| "hostnames_of (Failure e # os) = hostnames_of os"

fun errors_of :: "outcome list \<Rightarrow> string list" where
  "errors_of [] = []"
| "errors_of (Hostname h # os) = errors_of os"
| "errors_of (Failure e # os) = e # errors_of os"

definition record_of :: "string \<Rightarrow> GiteaFile list \<Rightarrow> outcome list \<Rightarrow> SiteHostnameInfo" where
  "record_of sitePath files outcomes =
     \<lparr>SitePath = sitePath, Hostnames = hostnames_of outcomes, BMNodeFiles = map Name files,
      Errors = errors_of outcomes\<rparr>"

section \<open>A small remote tree\<close>

text \<open>
  The repository \<open>h/o/r\<close> on branch \<open>b\<close>: its root holds \<open>bm-node-1.yaml\<close> and a
  directory named \<open>root\<close>; that directory holds \<open>bm-node-2.yaml\<close> (listed with the
  direct locator \<open>D2\<close>, which serves another hostname than the raw URL does),
  \<open>bm-node-3.yaml\<close> (no annotation), \<open>bm-node-4.yaml\<close> (its content is not served)
  and \<open>notes.txt\<close>.  Listing the path of \<open>notes.txt\<close> answers with a body that is
  not an array.  Every other URL answers 404.
\<close>

definition demo_listing :: "string \<Rightarrow> GiteaFile list option" where
  "demo_listing body =
     (if body = ''ROOT'' then
        Some [\<lparr>Name = ''bm-node-1.yaml'', Type = ''file'', DownloadURL = []\<rparr>,
              \<lparr>Name = ''root'', Type = ''dir'', DownloadURL = []\<rparr>]
      else if body = ''SUB'' then
        Some [\<lparr>Name = ''bm-node-2.yaml'', Type = ''file'', DownloadURL = ''D2''\<rparr>,
              \<lparr>Name = ''bm-node-3.yaml'', Type = ''file'', DownloadURL = []\<rparr>,
              \<lparr>Name = ''bm-node-4.yaml'', Type = ''file'', DownloadURL = []\<rparr>,
              \<lparr>Name = ''notes.txt'', Type = ''file'', DownloadURL = []\<rparr>]
      else None)"

definition demo_page :: "string \<Rightarrow> string option" where
  "demo_page url =
     (if url = ''h/api/v1/repos/o/r/contents?ref=b'' then Some ''ROOT''
      else if url = ''h/api/v1/repos/o/r/contents/root?ref=b'' then Some ''SUB''
      else if url = ''h/o/r/raw/branch/b//bm-node-1.yaml'' then Some (hostname_key @ '' n1'')
      else if url = ''h/o/r/raw/branch/b/root/bm-node-2.yaml'' then Some (hostname_key @ '' n2'')
      else if url = ''D2'' then Some (hostname_key @ '' d2'')
      else if url = ''h/o/r/raw/branch/b/root/bm-node-3.yaml'' then Some ''kind: BareMetalHost''
      else if url = ''h/api/v1/repos/o/r/contents/root/notes.txt?ref=b'' then Some ''FILE''
      else None)"

definition go_demo :: go_world where
  "go_demo =
     \<lparr>http_Get = (\<lambda>client url. case demo_page url of
                     Some body \<Rightarrow> Responded 200 ''200 OK'' (Inr body)
                   | None \<Rightarrow> Responded 404 ''404 Not Found'' (Inr [])),
      json_Unmarshal = demo_listing\<rparr>"

definition ts_demo :: ts_world where
  "ts_demo =
     \<lparr>client_get = (\<lambda>timeout url. case demo_page url of
                       Some body \<Rightarrow> Response 200 ''OK'' [] (End body)
                     | None \<Rightarrow> Response 404 ''Not Found'' [] (End [])),
      JSON_parse = demo_listing\<rparr>"

definition demo_sub :: "GiteaFile list" where
  "demo_sub = [\<lparr>Name = ''bm-node-2.yaml'', Type = ''file'', DownloadURL = ''D2''\<rparr>,
              \<lparr>Name = ''bm-node-3.yaml'', Type = ''file'', DownloadURL = []\<rparr>,
              \<lparr>Name = ''bm-node-4.yaml'', Type = ''file'', DownloadURL = []\<rparr>,
              \<lparr>Name = ''notes.txt'', Type = ''file'', DownloadURL = []\<rparr>]"

text \<open>
  A second TypeScript remote: \<open>U\<close> redirects to \<open>V\<close>, which is served; \<open>L\<close>
  redirects to itself; the body of \<open>I\<close> never comes; \<open>T\<close> is no URL; \<open>S\<close> is served
  after 20 seconds, to a request that waits that long; every other request times out.
\<close>

definition ts_redirect :: ts_world where
  "ts_redirect =
     \<lparr>client_get = (\<lambda>timeout url.
          if url = ''U'' then Response 302 ''Found'' ''V'' (End [])
          else if url = ''V'' then Response 200 ''OK'' [] (End ''ok'')
          else if url = ''L'' then Response 301 ''Moved Permanently'' ''L'' (End [])
          else if url = ''I'' then Response 200 ''OK'' [] Idle
          else if url = ''T'' then Throws ''Invalid URL''
          else if url = ''S'' then
            (if timeout < 20000 then RequestTimeout else Response 200 ''OK'' [] (End ''late''))
          else RequestTimeout),
      JSON_parse = (\<lambda>body. None)\<rparr>"

text \<open>A Go remote that answers after 20 seconds, to a client that waits that long.\<close>

definition go_slow :: go_world where
  "go_slow =
     \<lparr>http_Get = (\<lambda>client url.
          if Timeout client < 20 * Second
          then GetFailed ''context deadline exceeded (Client.Timeout exceeded while awaiting headers)''
          else Responded 200 ''200 OK'' (Inr ''late'')),
      json_Unmarshal = (\<lambda>body. None)\<rparr>"

text \<open>
  Two remotes that do under every timeout what \<open>go_slow\<close> and \<open>ts_redirect\<close> do
  under the timeout of 15 seconds.
\<close>

definition go_slow_15 :: go_world where
  "go_slow_15 = go_slow\<lparr>http_Get := (\<lambda>client. http_Get go_slow fetchURL_client)\<rparr>"

definition ts_redirect_15 :: ts_world where
  "ts_redirect_15 = ts_redirect\<lparr>client_get := (\<lambda>timeout. client_get ts_redirect 15000)\<rparr>"

text \<open>A TypeScript remote that refuses every connection.\<close>

definition ts_demo_refused :: ts_world where
  "ts_demo_refused =
     \<lparr>client_get = (\<lambda>timeout url. RequestError ''connection refused''),
      JSON_parse = (\<lambda>body. None)\<rparr>"

text \<open>
  A site directory \<open>s\<close> with the one matched file \<open>bm-node-1.yaml\<close>, whose content
  is answered with status 200 over a connection that is cut before the body ends:
  Go's \<open>ReadAll\<close> returns the error; the TypeScript response never emits \<open>end\<close>.
\<close>

definition cut_site :: "GiteaFile list" where
  "cut_site = [\<lparr>Name = ''bm-node-1.yaml'', Type = ''file'', DownloadURL = []\<rparr>]"

definition go_cut :: go_world where
  "go_cut =
     \<lparr>http_Get = (\<lambda>client url.
          if url = ''h/api/v1/repos/o/r/contents/s?ref=b''
          then Responded 200 ''200 OK'' (Inr ''SITE'')
          else if url = ''h/o/r/raw/branch/b/s/bm-node-1.yaml''
          then Responded 200 ''200 OK'' (Inl ''unexpected EOF'')
          else Responded 404 ''404 Not Found'' (Inr [])),
      json_Unmarshal = (\<lambda>body. if body = ''SITE'' then Some cut_site else None)\<rparr>"

definition ts_cut :: ts_world where
  "ts_cut =
     \<lparr>client_get = (\<lambda>timeout url.
          if url = ''h/api/v1/repos/o/r/contents/s?ref=b''
          then Response 200 ''OK'' [] (End ''SITE'')
          else if url = ''h/o/r/raw/branch/b/s/bm-node-1.yaml''
          then Response 200 ''OK'' [] Aborted
          else Response 404 ''Not Found'' [] (End [])),
      JSON_parse = (\<lambda>body. if body = ''SITE'' then Some cut_site else None)\<rparr>"

section \<open>Notions for the coordinator\<close>

text \<open>
  \<open>owed r\<close> is what the remaining operations \<open>r\<close> of a goroutine still hold of the
  wait-group counter: one for a pending \<open>wg.Done()\<close>, one for a child registered but not
  yet started.  \<open>tidy\<close> and \<open>wellformed\<close> describe the remaining operations of a
  branch (between two registrations, or between a registration and its start).
  \<open>coordinated\<close> is the invariant of the program: the counter is the sum of what the
  goroutines hold, the producer is somewhere in its program, it is past \<open>wg.Wait()\<close>
  only when every branch is done, and the channel is closed exactly when the producer
  is done.
\<close>

fun owed :: "action list \<Rightarrow> int" where
  "owed [] = 0"
| "owed (WgAdd # r) = owed r - 1"
| "owed (Go d # r) = owed r + 1"
| "owed (WgDone # r) = owed r + 1"
| "owed (a # r) = owed r"

fun tidy :: "action list \<Rightarrow> bool" where
  "tidy [] = True"
| "tidy [WgDone] = True"
| "tidy (WgAdd # Go d # r) = (r \<noteq> [] \<and> tidy r)"
| "tidy (Send siteInfo # r) = (r \<noteq> [] \<and> tidy r)"
| "tidy (Panic # r) = (r \<noteq> [] \<and> tidy r)"
| "tidy r = False"

definition wellformed :: "action list \<Rightarrow> bool" where
  "wellformed r = (tidy r \<or> (\<exists>d r'. r = Go d # r' \<and> r' \<noteq> [] \<and> tidy r'))"

definition coordinated :: "system \<Rightarrow> bool" where
  "coordinated s =
     ((producer s = producer_program \<or> producer s = [Go [], WgWait, Close]
        \<or> producer s = [WgWait, Close] \<or> producer s = [Close] \<or> producer s = [])
      \<and> (\<forall>b\<in>set (branches s). wellformed (snd b))
      \<and> counter s = owed (producer s) + sum_list (map (\<lambda>b. owed (snd b)) (branches s))
      \<and> (WgWait \<notin> set (producer s) \<longrightarrow> (\<forall>b\<in>set (branches s). snd b = []))
      \<and> (closed s \<longleftrightarrow> producer s = [])
      \<and> (finished s \<longrightarrow> closed s))"

text \<open>
  The states of the run in which the listing of the root fails, and a remote that
  refuses every connection.
\<close>

definition snapshot ::
    "action list \<Rightarrow> (string \<times> action list) list \<Rightarrow> int \<Rightarrow> bool \<Rightarrow> bool \<Rightarrow> system" where
  "snapshot p bs c cl f =
     \<lparr>producer = p, branches = bs, counter = c, closed = cl, received = [], finished = f,
      crashed = False, trace = []\<rparr>"

definition failed_root_run :: "nat \<Rightarrow> system" where
  "failed_root_run n =
     (if n = 0 then snapshot [WgAdd, Go [], WgWait, Close] [] 0 False False
      else if n = 1 then snapshot [Go [], WgWait, Close] [] 1 False False
      else if n = 2 then snapshot [WgWait, Close] [([], [WgDone])] 1 False False
      else if n = 3 then snapshot [WgWait, Close] [([], [])] 0 False False
      else if n = 4 then snapshot [Close] [([], [])] 0 False False
      else if n = 5 then snapshot [] [([], [])] 0 True False
      else snapshot [] [([], [])] 0 True True)"

definition go_down :: go_world where
  "go_down = \<lparr>http_Get = (\<lambda>client url. GetFailed ''connection refused''),
     json_Unmarshal = (\<lambda>body. None)\<rparr>"

text \<open>
  The listing of the root of the small tree, the records of its two site directories
  (as the Go backend and as the TypeScript extractor build them), and the states of one
  complete run of the Go program over it.
\<close>

definition demo_root :: "GiteaFile list" where
  "demo_root = [\<lparr>Name = ''bm-node-1.yaml'', Type = ''file'', DownloadURL = []\<rparr>,
               \<lparr>Name = ''root'', Type = ''dir'', DownloadURL = []\<rparr>]"

definition demo_record :: SiteHostnameInfo where
  "demo_record = \<lparr>SitePath = ''root'', Hostnames = [''n2''],
     BMNodeFiles = [''bm-node-2.yaml'', ''bm-node-3.yaml'', ''bm-node-4.yaml''],
     Errors = [''No hostname annotation found in bm-node-3.yaml'',
       ''Error processing bm-node-4.yaml: HTTP 404: 404 Not Found for h/o/r/raw/branch/b/root/bm-node-4.yaml'']\<rparr>"

definition demo_record_ts :: SiteHostnameInfo where
  "demo_record_ts = \<lparr>SitePath = ''root'', Hostnames = [''d2''],
     BMNodeFiles = [''bm-node-2.yaml'', ''bm-node-3.yaml'', ''bm-node-4.yaml''],
     Errors = [''No hostname annotation found in bm-node-3.yaml'',
       ''Error processing bm-node-4.yaml: HTTP 404: Not Found for h/o/r/raw/branch/b/root/bm-node-4.yaml'']\<rparr>"

definition demo_record_top :: SiteHostnameInfo where
  "demo_record_top = \<lparr>SitePath = [], Hostnames = [''n1''],
     BMNodeFiles = [''bm-node-1.yaml''], Errors = []\<rparr>"

definition demo_run :: "nat \<Rightarrow> system" where
  "demo_run n =
     (let top = (\<lambda>r. ([], r)); sub = (\<lambda>r. (''root'', r));
          p1 = Published [] demo_record; sp = Spawned [] ''root'';
          p2 = Published ''root'' demo_record
      in if n = 0 then snapshot [WgAdd, Go [], WgWait, Close] [] 0 False False
         else if n = 1 then snapshot [Go [], WgWait, Close] [] 1 False False
         else if n = 2 then
           snapshot [WgWait, Close] [top [Send demo_record, WgAdd, Go ''root'', WgDone]] 1
             False False
         else if n = 3 then
           (snapshot [WgWait, Close] [top [WgAdd, Go ''root'', WgDone]] 1 False False)
             \<lparr>received := [demo_record], trace := [p1]\<rparr>
         else if n = 4 then
           (snapshot [WgWait, Close] [top [Go ''root'', WgDone]] 2 False False)
             \<lparr>received := [demo_record], trace := [p1]\<rparr>
         else if n = 5 then
           (snapshot [WgWait, Close] [top [WgDone], sub [Send demo_record, WgDone]] 2
              False False)
             \<lparr>received := [demo_record], trace := [p1, sp]\<rparr>
         else if n = 6 then
           (snapshot [WgWait, Close] [top [], sub [Send demo_record, WgDone]] 1 False False)
             \<lparr>received := [demo_record], trace := [p1, sp]\<rparr>
         else if n = 7 then
           (snapshot [WgWait, Close] [top [], sub [WgDone]] 1 False False)
             \<lparr>received := [demo_record, demo_record], trace := [p1, sp, p2]\<rparr>
         else if n = 8 then
           (snapshot [WgWait, Close] [top [], sub []] 0 False False)
             \<lparr>received := [demo_record, demo_record], trace := [p1, sp, p2]\<rparr>
         else if n = 9 then
           (snapshot [Close] [top [], sub []] 0 False False)
             \<lparr>received := [demo_record, demo_record], trace := [p1, sp, p2]\<rparr>
         else if n = 10 then
           (snapshot [] [top [], sub []] 0 True False)
             \<lparr>received := [demo_record, demo_record], trace := [p1, sp, p2]\<rparr>
         else
           (snapshot [] [top [], sub []] 0 True True)
             \<lparr>received := [demo_record, demo_record], trace := [p1, sp, p2]\<rparr>)"

text \<open>
  A deeper tree, \<open>h/o/r\<close> on branch \<open>b\<close> of another remote: the root holds the
  directories \<open>a\<close> and \<open>c\<close>; \<open>a\<close> holds the directory \<open>b\<close>; \<open>a/b\<close> is a site with
  the file \<open>bm-node-9.yaml\<close>; \<open>c\<close> is empty.  \<open>deep_run\<close> are the states of one
  complete run of the Go program over it, in which \<open>a\<close> registers and starts its child
  while the root is still registering \<open>c\<close>, the parents finish before their children,
  and the record of the grandchild is published last.
\<close>

definition deep_listing :: "string \<Rightarrow> GiteaFile list option" where
  "deep_listing body =
     (if body = ''TOP'' then
        Some [\<lparr>Name = ''a'', Type = ''dir'', DownloadURL = []\<rparr>,
              \<lparr>Name = ''c'', Type = ''dir'', DownloadURL = []\<rparr>]
      else if body = ''A'' then Some [\<lparr>Name = ''b'', Type = ''dir'', DownloadURL = []\<rparr>]
      else if body = ''AB'' then
        Some [\<lparr>Name = ''bm-node-9.yaml'', Type = ''file'', DownloadURL = []\<rparr>]
      else if body = ''C'' then Some []
      else None)"

definition deep_page :: "string \<Rightarrow> string option" where
  "deep_page url =
     (if url = ''h/api/v1/repos/o/r/contents?ref=b'' then Some ''TOP''
      else if url = ''h/api/v1/repos/o/r/contents/a?ref=b'' then Some ''A''
      else if url = ''h/api/v1/repos/o/r/contents/a/b?ref=b'' then Some ''AB''
      else if url = ''h/api/v1/repos/o/r/contents/c?ref=b'' then Some ''C''
      else if url = ''h/o/r/raw/branch/b/a/b/bm-node-9.yaml'' then Some (hostname_key @ '' n9'')
      else None)"

definition go_deep :: go_world where
  "go_deep =
     \<lparr>http_Get = (\<lambda>client url. case deep_page url of
                     Some body \<Rightarrow> Responded 200 ''200 OK'' (Inr body)
                   | None \<Rightarrow> Responded 404 ''404 Not Found'' (Inr [])),
      json_Unmarshal = deep_listing\<rparr>"

definition deep_record :: SiteHostnameInfo where
  "deep_record = \<lparr>SitePath = ''a/b'', Hostnames = [''n9''],
     BMNodeFiles = [''bm-node-9.yaml''], Errors = []\<rparr>"

definition deep_run :: "nat \<Rightarrow> system" where
  "deep_run n =
     (let top = (\<lambda>r. ([], r)); a = (\<lambda>r. (''a'', r)); ab = (\<lambda>r. (''a/b'', r));
          c = (\<lambda>r. (''c'', r));
          t1 = [Spawned [] ''a'']; t2 = t1 @ [Spawned ''a'' ''a/b''];
          t3 = t2 @ [Spawned [] ''c'']; t4 = t3 @ [Published ''a/b'' deep_record];
          site = [Send deep_record, WgDone]
      in if n = 0 then snapshot [WgAdd, Go [], WgWait, Close] [] 0 False False
         else if n = 1 then snapshot [Go [], WgWait, Close] [] 1 False False
         else if n = 2 then
           snapshot [WgWait, Close] [top [WgAdd, Go ''a'', WgAdd, Go ''c'', WgDone]] 1
             False False
         else if n = 3 then
           snapshot [WgWait, Close] [top [Go ''a'', WgAdd, Go ''c'', WgDone]] 2 False False
         else if n = 4 then
           (snapshot [WgWait, Close]
              [top [WgAdd, Go ''c'', WgDone], a [WgAdd, Go ''a/b'', WgDone]] 2 False False)
             \<lparr>trace := t1\<rparr>
         else if n = 5 then
           (snapshot [WgWait, Close]
              [top [WgAdd, Go ''c'', WgDone], a [Go ''a/b'', WgDone]] 3 False False)
             \<lparr>trace := t1\<rparr>
         else if n = 6 then
           (snapshot [WgWait, Close]
              [top [Go ''c'', WgDone], a [Go ''a/b'', WgDone]] 4 False False)
             \<lparr>trace := t1\<rparr>
         else if n = 7 then
           (snapshot [WgWait, Close]
              [top [Go ''c'', WgDone], a [WgDone], ab site] 4 False False)
             \<lparr>trace := t2\<rparr>
         else if n = 8 then
           (snapshot [WgWait, Close]
              [top [WgDone], a [WgDone], ab site, c [WgDone]] 4 False False)
             \<lparr>trace := t3\<rparr>
         else if n = 9 then
           (snapshot [WgWait, Close] [top [WgDone], a [], ab site, c [WgDone]] 3 False False)
             \<lparr>trace := t3\<rparr>
         else if n = 10 then
           (snapshot [WgWait, Close] [top [], a [], ab site, c [WgDone]] 2 False False)
             \<lparr>trace := t3\<rparr>
         else if n = 11 then
           (snapshot [WgWait, Close] [top [], a [], ab site, c []] 1 False False)
             \<lparr>trace := t3\<rparr>
         else if n = 12 then
           (snapshot [WgWait, Close] [top [], a [], ab [WgDone], c []] 1 False False)
             \<lparr>received := [deep_record], trace := t4\<rparr>
         else if n = 13 then
           (snapshot [WgWait, Close] [top [], a [], ab [], c []] 0 False False)
             \<lparr>received := [deep_record], trace := t4\<rparr>
         else if n = 14 then
           (snapshot [Close] [top [], a [], ab [], c []] 0 False False)
             \<lparr>received := [deep_record], trace := t4\<rparr>
         else if n = 15 then
           (snapshot [] [top [], a [], ab [], c []] 0 True False)
             \<lparr>received := [deep_record], trace := t4\<rparr>
         else
           (snapshot [] [top [], a [], ab [], c []] 0 True True)
             \<lparr>received := [deep_record], trace := t4\<rparr>)"

text \<open>
  \<open>in_order\<close>: each branch is somewhere in the program of its directory and what it
  has sent is in the trace; and wherever the trace records the start of a child of a
  directory, every record that directory's program sends has been published earlier.
\<close>

definition in_order :: "go_world \<Rightarrow> string \<Rightarrow> string \<Rightarrow> system \<Rightarrow> bool" where
  "in_order w repoURL branch s =
     ((\<forall>b\<in>set (branches s). \<exists>done.
          discoverSitesRecursively w repoURL (fst b) branch = done @ snd b
          \<and> (\<forall>i. Send i \<in> set done \<longrightarrow> Published (fst b) i \<in> set (trace s)))
      \<and> (\<forall>earlier p d later. trace s = earlier @ Spawned p d # later \<longrightarrow>
            (\<forall>i. Send i \<in> set (discoverSitesRecursively w repoURL p branch)
                 \<longrightarrow> Published p i \<in> set earlier)))"

section \<open>Properties of the regular expressions\<close>

lemma orelse_None [simp]: "orelse x None = x"
  by (cases x) simp_all

lemma rmatch_lits:
  "rmatch (lits k @ R) s cap =
     (if take (length k) s = k then rmatch R (drop (length k) s) cap else None)"
proof (induction k arbitrary: s)
  case Nil
  show ?case by (simp add: lits_def)
next
  case (Cons a k)
  show ?case
  proof (cases s)
    case Nil
    then show ?thesis by (simp add: lits_def)
  next
    case (Cons c cs)
    then show ?thesis using Cons.IH [of cs] by (auto simp: lits_def)
  qed
qed

lemma rmatch_value_tail:
  "rmatch [Chars V Star True, Chars quote Opt False] s cap = Some (cap @ takeWhile V s)"
  by (induction s arbitrary: cap) auto

lemma rmatch_value:
  "rmatch [Chars V Plus True, Chars quote Opt False] s cap =
     (if takeWhile V s = [] then None else Some (cap @ takeWhile V s))"
  by (cases s) (auto simp: rmatch_value_tail)

lemma rmatch_quoted_value:
  assumes "\<And>c. V c \<Longrightarrow> \<not> quote c"
  shows "rmatch [Chars quote Opt False, Chars V Plus True, Chars quote Opt False] s cap =
     (if takeWhile V (unquote s) = [] then None else Some (cap @ takeWhile V (unquote s)))"
proof (cases s)
  case Nil
  then show ?thesis by (simp add: unquote_def)
next
  case (Cons c cs)
  show ?thesis
  proof (cases "quote c")
    case True
    then have "\<not> V c" using assms by blast
    then show ?thesis using True Cons by (simp add: rmatch_value unquote_def)
  next
    case False
    then show ?thesis using Cons by (simp add: rmatch_value_tail unquote_def)
  qed
qed

lemma rmatch_spaces:
  assumes "\<And>c. V c \<Longrightarrow> \<not> quote c" and "\<And>c. sp c \<Longrightarrow> \<not> quote c \<and> \<not> V c"
  shows "rmatch [Chars sp Star False, Chars quote Opt False, Chars V Plus True,
                 Chars quote Opt False] s cap =
     rmatch [Chars quote Opt False, Chars V Plus True, Chars quote Opt False]
       (dropWhile sp s) cap"
proof (induction s)
  case Nil
  show ?case by simp
next
  case (Cons c cs)
  show ?case
  proof (cases "sp c")
    case True
    then have "\<not> quote c" "\<not> V c" using assms(2) by blast+
    then show ?thesis using True Cons.IH by simp
  next
    case False
    then show ?thesis by simp
  qed
qed

lemma rmatch_hostname_re:
  assumes "\<And>c. sp c \<Longrightarrow> \<not> quote c"
  shows "rmatch (hostname_re sp) s [] =
     (if take (length hostname_key) s = hostname_key
      then annotation sp (drop (length hostname_key) s) else None)"
proof -
  let ?V = "\<lambda>c. \<not> quote c \<and> \<not> sp c"
  have a: "\<And>c. ?V c \<Longrightarrow> \<not> quote c" by simp
  have b: "\<And>c. sp c \<Longrightarrow> \<not> quote c \<and> \<not> ?V c" using assms by simp
  have r: "rmatch [Chars sp Star False, Chars quote Opt False, Chars ?V Plus True,
                   Chars quote Opt False] t [] = annotation sp t" for t
    using rmatch_spaces [of ?V sp t "[]"] rmatch_quoted_value [of ?V "dropWhile sp t" "[]"] assms
    by (simp add: annotation_def Let_def)
  show ?thesis
    unfolding hostname_re_def rmatch_lits r ..
qed

lemma search_Some_iff:
  "search re s = Some v \<longleftrightarrow>
     (\<exists>i\<le>length s. rmatch re (drop i s) [] = Some v \<and> (\<forall>j<i. rmatch re (drop j s) [] = None))"
proof (induction s)
  case Nil
  show ?case by simp
next
  case (Cons c cs)
  show ?case
  proof (cases "rmatch re (c # cs) []")
    case (Some u)
    have "(\<exists>i\<le>length (c # cs). rmatch re (drop i (c # cs)) [] = Some v
            \<and> (\<forall>j<i. rmatch re (drop j (c # cs)) [] = None)) \<longleftrightarrow> u = v"
    proof
      assume "\<exists>i\<le>length (c # cs). rmatch re (drop i (c # cs)) [] = Some v
            \<and> (\<forall>j<i. rmatch re (drop j (c # cs)) [] = None)"
      then obtain i where i: "rmatch re (drop i (c # cs)) [] = Some v"
          "\<forall>j<i. rmatch re (drop j (c # cs)) [] = None" by blast
      have "i = 0"
      proof (rule ccontr)
        assume "i \<noteq> 0"
        then have "rmatch re (drop 0 (c # cs)) [] = None" using i(2) by blast
        then show False using Some by simp
      qed
      then show "u = v" using i(1) Some by simp
    next
      assume "u = v"
      then have "rmatch re (drop 0 (c # cs)) [] = Some v \<and> (\<forall>j<0. rmatch re (drop j (c # cs)) [] = None)"
        using Some by simp
      then show "\<exists>i\<le>length (c # cs). rmatch re (drop i (c # cs)) [] = Some v
            \<and> (\<forall>j<i. rmatch re (drop j (c # cs)) [] = None)" by blast
    qed
    then show ?thesis using Some by simp
  next
    case None
    have "(\<exists>i\<le>length (c # cs). rmatch re (drop i (c # cs)) [] = Some v
            \<and> (\<forall>j<i. rmatch re (drop j (c # cs)) [] = None)) \<longleftrightarrow>
          (\<exists>i\<le>length cs. rmatch re (drop i cs) [] = Some v
            \<and> (\<forall>j<i. rmatch re (drop j cs) [] = None))" (is "?L \<longleftrightarrow> ?R")
    proof
      assume ?L
      then obtain i where i: "i \<le> length (c # cs)" "rmatch re (drop i (c # cs)) [] = Some v"
          "\<forall>j<i. rmatch re (drop j (c # cs)) [] = None" by blast
      then obtain k where k: "i = Suc k" using None by (cases i) auto
      have "\<forall>j<k. rmatch re (drop j cs) [] = None"
      proof (intro allI impI)
        fix j assume "j < k"
        then have "Suc j < i" using k by simp
        then have "rmatch re (drop (Suc j) (c # cs)) [] = None" using i(3) by blast
        then show "rmatch re (drop j cs) [] = None" by simp
      qed
      then show ?R using i k by auto
    next
      assume ?R
      then obtain i where i: "i \<le> length cs" "rmatch re (drop i cs) [] = Some v"
          "\<forall>j<i. rmatch re (drop j cs) [] = None" by blast
      have "\<forall>j<Suc i. rmatch re (drop j (c # cs)) [] = None"
      proof (intro allI impI)
        fix j assume "j < Suc i"
        then show "rmatch re (drop j (c # cs)) [] = None"
          using None i(3) by (cases j) auto
      qed
      then have "Suc i \<le> length (c # cs) \<and> rmatch re (drop (Suc i) (c # cs)) [] = Some v
          \<and> (\<forall>j<Suc i. rmatch re (drop j (c # cs)) [] = None)"
        using i by simp
      then show ?L by blast
    qed
    then show ?thesis using None Cons.IH by simp
  qed
qed


lemma dropWhile_all_then:
  "\<forall>c\<in>set ws. P c \<Longrightarrow> ys = [] \<or> \<not> P (hd ys) \<Longrightarrow> dropWhile P (ws @ ys) = ys"
  by (induction ws) (cases ys; auto)+

lemma takeWhile_all_then:
  "\<forall>c\<in>set v. P c \<Longrightarrow> ys = [] \<or> \<not> P (hd ys) \<Longrightarrow> takeWhile P (v @ ys) = v"
  by (induction v) (cases ys; auto)+

lemma annotation_complete:
  assumes sp: "\<And>c. sp c \<Longrightarrow> \<not> quote c"
    and ws: "\<forall>c\<in>set ws. sp c"
    and q: "q = [] \<or> q = [CHR 0x22] \<or> q = [CHR 0x27]"
    and v: "plain_value sp v"
    and rest: "rest = [] \<or> quote (hd rest) \<or> sp (hd rest)"
  shows "annotation sp (ws @ q @ v @ rest) = Some v"
proof -
  let ?V = "\<lambda>c. \<not> quote c \<and> \<not> sp c"
  obtain a v' where av: "v = a # v'" "?V a" using v by (cases v) (auto simp: plain_value_def)
  have "q @ v @ rest = [] \<or> \<not> sp (hd (q @ v @ rest))"
    using q av sp [of "CHR 0x22"] sp [of "CHR 0x27"] by (auto simp: quote_def)
  then have d: "dropWhile sp (ws @ q @ v @ rest) = q @ v @ rest"
    using ws dropWhile_all_then [of ws sp "q @ v @ rest"] by blast
  have u: "unquote (q @ v @ rest) = v @ rest"
    using q av by (auto simp: unquote_def quote_def)
  have "rest = [] \<or> \<not> ?V (hd rest)" using rest by blast
  moreover have "\<forall>c\<in>set v. ?V c" using v by (simp add: plain_value_def)
  ultimately have t: "takeWhile ?V (v @ rest) = v"
    using takeWhile_all_then [of v ?V rest] by blast
  show ?thesis using d u t av by (simp add: annotation_def)
qed

lemma unquote_split:
  "d = (case d of [] \<Rightarrow> [] | c # cs \<Rightarrow> if quote c then [c] else []) @ unquote d"
  by (cases d) (auto simp: unquote_def)

lemma annotation_sound:
  assumes "annotation sp t = Some v"
  shows "\<exists>ws q rest. t = ws @ q @ v @ rest
         \<and> (\<forall>c\<in>set ws. sp c) \<and> (q = [] \<or> q = [CHR 0x22] \<or> q = [CHR 0x27])
         \<and> plain_value sp v \<and> (rest = [] \<or> quote (hd rest) \<or> sp (hd rest))"
proof -
  let ?V = "\<lambda>c. \<not> quote c \<and> \<not> sp c"
  let ?d = "dropWhile sp t"
  let ?u = "unquote ?d"
  let ?q = "(case ?d of [] \<Rightarrow> [] | c # cs \<Rightarrow> if quote c then [c] else [])"
  from assms have v: "v = takeWhile ?V ?u" "v \<noteq> []"
    by (auto simp: annotation_def Let_def split: if_splits)
  have t: "t = takeWhile sp t @ ?d" by simp
  have d: "?d = ?q @ ?u" by (rule unquote_split)
  have u: "?u = v @ dropWhile ?V ?u" using v by simp
  have "t = takeWhile sp t @ ?q @ v @ dropWhile ?V ?u"
    using t d u by metis
  moreover have "\<forall>c\<in>set (takeWhile sp t). sp c" by (auto dest: set_takeWhileD)
  moreover have "?q = [] \<or> ?q = [CHR 0x22] \<or> ?q = [CHR 0x27]"
    by (auto simp: quote_def split: list.splits)
  moreover have "plain_value sp v"
    using v by (auto simp: plain_value_def dest: set_takeWhileD)
  moreover have "dropWhile ?V ?u = [] \<or> quote (hd (dropWhile ?V ?u)) \<or> sp (hd (dropWhile ?V ?u))"
    using hd_dropWhile [of ?V ?u] by blast
  ultimately show ?thesis by blast
qed

lemma rmatch_annotation_at:
  assumes sp: "\<And>c. sp c \<Longrightarrow> \<not> quote c" and i: "i \<le> length content"
  shows "rmatch (hostname_re sp) (drop i content) [] = Some v \<longleftrightarrow> annotation_at sp content i v"
proof
  assume m: "rmatch (hostname_re sp) (drop i content) [] = Some v"
  let ?s = "drop i content"
  from m have k: "take (length hostname_key) ?s = hostname_key"
    and a: "annotation sp (drop (length hostname_key) ?s) = Some v"
    by (auto simp: rmatch_hostname_re [where sp = sp, OF sp] split: if_splits)
  have "?s = hostname_key @ drop (length hostname_key) ?s"
    using k append_take_drop_id [of "length hostname_key" ?s] by metis
  with annotation_sound [OF a] i show "annotation_at sp content i v"
    unfolding annotation_at_def by metis
next
  assume "annotation_at sp content i v"
  then obtain ws q rest where d: "drop i content = hostname_key @ ws @ q @ v @ rest"
    and ws: "\<forall>c\<in>set ws. sp c" and q: "q = [] \<or> q = [CHR 0x22] \<or> q = [CHR 0x27]"
    and v: "plain_value sp v" and rest: "rest = [] \<or> quote (hd rest) \<or> sp (hd rest)"
    unfolding annotation_at_def by blast
  show "rmatch (hostname_re sp) (drop i content) [] = Some v"
    using annotation_complete [where sp = sp, OF sp ws q v rest]
    by (simp add: d rmatch_hostname_re [where sp = sp, OF sp])
qed

lemma rmatch_hostname_None:
  assumes sp: "\<And>c. sp c \<Longrightarrow> \<not> quote c" and i: "i \<le> length content"
  shows "rmatch (hostname_re sp) (drop i content) [] = None \<longleftrightarrow> (\<forall>v. \<not> annotation_at sp content i v)"
  using rmatch_annotation_at [where sp = sp, OF sp i] by (cases "rmatch (hostname_re sp) (drop i content) []") auto

lemma search_hostname_Some:
  assumes sp: "\<And>c. sp c \<Longrightarrow> \<not> quote c"
  shows "search (hostname_re sp) content = Some v \<longleftrightarrow> first_annotation sp content v"
proof
  assume "search (hostname_re sp) content = Some v"
  then obtain i where i: "i \<le> length content"
      "rmatch (hostname_re sp) (drop i content) [] = Some v"
      "\<forall>j<i. rmatch (hostname_re sp) (drop j content) [] = None"
    unfolding search_Some_iff by blast
  have "\<forall>j<i. \<forall>u. \<not> annotation_at sp content j u"
  proof (intro allI impI)
    fix j u assume "j < i"
    then have "j \<le> length content" "rmatch (hostname_re sp) (drop j content) [] = None"
      using i by auto
    then show "\<not> annotation_at sp content j u"
      using rmatch_hostname_None [where sp = sp and i = j and content = content, OF sp] by blast
  qed
  then show "first_annotation sp content v"
    unfolding first_annotation_def using i rmatch_annotation_at [where sp = sp and i = i and content = content and v = v, OF sp] by blast
next
  assume "first_annotation sp content v"
  then obtain i where i: "annotation_at sp content i v"
      "\<forall>j<i. \<forall>u. \<not> annotation_at sp content j u"
    unfolding first_annotation_def by blast
  then have le: "i \<le> length content" by (simp add: annotation_at_def)
  have "\<forall>j<i. rmatch (hostname_re sp) (drop j content) [] = None"
  proof (intro allI impI)
    fix j assume "j < i"
    then have "j \<le> length content" "\<forall>u. \<not> annotation_at sp content j u" using le i(2) by auto
    then show "rmatch (hostname_re sp) (drop j content) [] = None"
      using rmatch_hostname_None [where sp = sp and i = j and content = content, OF sp] by blast
  qed
  then show "search (hostname_re sp) content = Some v"
    unfolding search_Some_iff using le i(1) rmatch_annotation_at [where sp = sp and v = v, OF sp le] by blast
qed


lemma search_hostname_nonempty:
  assumes sp: "\<And>c. sp c \<Longrightarrow> \<not> quote c" and "search (hostname_re sp) content = Some v"
  shows "v \<noteq> []"
  using assms(2) search_hostname_Some [where sp = sp and content = content and v = v, OF sp]
  by (auto simp: first_annotation_def annotation_at_def plain_value_def)


lemma js_space_not_quote: "js_space c \<Longrightarrow> \<not> quote c"
  by (auto simp: js_space_def quote_def)








lemma Split_last: "sep \<notin> set a \<Longrightarrow> Split a sep = [a]"
  by (induction a) auto








section \<open>The site processor\<close>

lemma constructRawURL_total:
  "2 \<le> length (Split (TrimRight repoURL CHR ''/'') CHR ''/'') \<Longrightarrow>
   \<exists>u. constructRawURL repoURL filePath branch = Some u"
  by (simp add: constructRawURL_def Let_def)

lemma listing_parts:
  "getGiteaDirectoryListing w repoURL path branch = Some x \<Longrightarrow>
   2 \<le> length (Split (TrimRight repoURL CHR ''/'') CHR ''/'')"
  by (auto simp: getGiteaDirectoryListing_def convertToGiteaAPIURL_def Let_def
      split: option.splits if_splits)

lemma processFiles_tally:
  assumes "2 \<le> length (Split (TrimRight repoURL CHR ''/'') CHR ''/'')"
  shows "\<exists>r. processFiles w repoURL sitePath branch items siteInfo = Some r
     \<and> SitePath r = SitePath siteInfo
     \<and> BMNodeFiles r = BMNodeFiles siteInfo @ map Name (filter isBMNodeFile items)
     \<and> length (Hostnames r) = length (Hostnames siteInfo)
         + length (filter (file_succeeds w repoURL sitePath branch) (filter isBMNodeFile items))
     \<and> length (Errors r) = length (Errors siteInfo)
         + length (filter (\<lambda>f. \<not> file_succeeds w repoURL sitePath branch f) (filter isBMNodeFile items))"
proof (induction items arbitrary: siteInfo)
  case Nil
  show ?case by simp
next
  case (Cons f items)
  show ?case
  proof (cases "isBMNodeFile f")
    case False
    then show ?thesis using Cons.IH [of siteInfo] by simp
  next
    case True
    obtain u where u: "constructRawURL repoURL (sitePath @ ''/'' @ Name f) branch = Some u"
      using constructRawURL_total [OF assms] by blast
    let ?s1 = "siteInfo\<lparr>BMNodeFiles := BMNodeFiles siteInfo @ [Name f]\<rparr>"
    show ?thesis
    proof (cases "fetchURL w u")
      case (Inl err)
      then show ?thesis
        using True u Cons.IH [of "?s1\<lparr>Errors := Errors ?s1 @ [''Error processing '' @ Name f @ '': '' @ err]\<rparr>"]
        by (simp add: file_succeeds_def)
    next
      case (Inr content)
      show ?thesis
      proof (cases "FindStringSubmatch hostnameRegex content")
        case None
        then show ?thesis
          using True u Inr Cons.IH [of "?s1\<lparr>Errors := Errors ?s1 @ [''No hostname annotation found in '' @ Name f]\<rparr>"]
          by (simp add: file_succeeds_def)
      next
        case (Some h)
        then show ?thesis
          using True u Inr Cons.IH [of "?s1\<lparr>Hostnames := Hostnames ?s1 @ [h]\<rparr>"]
          by (simp add: file_succeeds_def)
      qed
    qed
  qed
qed

lemma processFiles_ts_tally:
  assumes "\<forall>f\<in>set files. fetchUrl w (file_url_ts repoUrl sitePath branch f) \<noteq> None"
  shows "\<exists>r. processFiles_ts w repoUrl sitePath branch files siteInfo = Some r
     \<and> SitePath r = SitePath siteInfo
     \<and> BMNodeFiles r = BMNodeFiles siteInfo @ map Name files
     \<and> length (Hostnames r) = length (Hostnames siteInfo)
         + length (filter (file_succeeds_ts w repoUrl sitePath branch) files)
     \<and> length (Errors r) = length (Errors siteInfo)
         + length (filter (\<lambda>f. \<not> file_succeeds_ts w repoUrl sitePath branch f) files)"
  using assms
proof (induction files arbitrary: siteInfo)
  case Nil
  show ?case by simp
next
  case (Cons f files)
  let ?u = "file_url_ts repoUrl sitePath branch f"
  let ?s1 = "siteInfo\<lparr>BMNodeFiles := BMNodeFiles siteInfo @ [Name f]\<rparr>"
  from Cons.prems obtain res where res: "fetchUrl w ?u = Some res" by auto
  from Cons.prems have rest: "\<forall>f\<in>set files. fetchUrl w (file_url_ts repoUrl sitePath branch f) \<noteq> None"
    by simp
  note IH = Cons.IH [OF rest]
  show ?case
  proof (cases res)
    case (Inl message)
    then show ?thesis
      using res IH [of "?s1\<lparr>Errors := Errors ?s1 @ [''Error processing '' @ Name f @ '': '' @ message]\<rparr>"]
      by (simp add: file_succeeds_ts_def file_url_ts_def Let_def)
  next
    case (Inr content)
    show ?thesis
    proof (cases "extractHostnameFromContent content")
      case None
      then show ?thesis
        using res Inr IH [of "?s1\<lparr>Errors := Errors ?s1 @ [''No hostname annotation found in '' @ Name f]\<rparr>"]
        by (simp add: file_succeeds_ts_def file_url_ts_def Let_def)
    next
      case (Some h)
      show ?thesis
      proof (cases "h = []")
        case True
        then show ?thesis
          using Some search_hostname_nonempty [where sp = js_space and content = content and v = h,
              OF js_space_not_quote]
          by (simp add: extractHostnameFromContent_def FindStringSubmatch_def hostnameRegex_ts_def)
      next
        case False
        then show ?thesis
          using res Inr Some IH [of "?s1\<lparr>Hostnames := Hostnames ?s1 @ [h]\<rparr>"]
          by (simp add: file_succeeds_ts_def file_url_ts_def Let_def)
      qed
    qed
  qed
qed


lemma filter_split_length:
  "length (filter P xs) + length (filter (\<lambda>x. \<not> P x) xs) = length xs"
  by (induction xs) auto

lemma processSiteDirectory_tallies:
  assumes l: "getGiteaDirectoryListing w repoURL sitePath branch = Some (Inr items)"
  shows "\<exists>r. processSiteDirectory w repoURL sitePath branch = Some r
         \<and> BMNodeFiles r = map Name (filter isBMNodeFile items)
         \<and> tallies r (length (filter isBMNodeFile items))
              (length (filter (\<lambda>f. \<not> file_succeeds w repoURL sitePath branch f)
                 (filter isBMNodeFile items)))"
proof -
  let ?s0 = "\<lparr>SitePath = sitePath, Hostnames = [], BMNodeFiles = [], Errors = []\<rparr>"
  let ?m = "filter isBMNodeFile items"
  obtain r where r: "processFiles w repoURL sitePath branch items ?s0 = Some r"
    "BMNodeFiles r = BMNodeFiles ?s0 @ map Name ?m"
    "length (Hostnames r) = length (Hostnames ?s0)
       + length (filter (file_succeeds w repoURL sitePath branch) ?m)"
    "length (Errors r) = length (Errors ?s0)
       + length (filter (\<lambda>f. \<not> file_succeeds w repoURL sitePath branch f) ?m)"
    using processFiles_tally [OF listing_parts [OF l], of w sitePath branch items ?s0] by blast
  have p: "processSiteDirectory w repoURL sitePath branch = Some r"
    using l r(1) by (simp add: processSiteDirectory_def)
  have t: "tallies r (length ?m)
      (length (filter (\<lambda>f. \<not> file_succeeds w repoURL sitePath branch f) ?m))"
    using r(2,3,4) filter_split_length [of "file_succeeds w repoURL sitePath branch" ?m]
    by (simp add: tallies_def)
  show ?thesis using p r(2) t by simp
qed

lemma processSiteDirectory_ts_tallies:
  assumes l: "getGiteaDirectoryListing_ts tw repoUrl tsPath tsBranch = Some tsItems"
    and f: "\<forall>f\<in>set (filter isBMNodeFile_ts tsItems).
             fetchUrl tw (file_url_ts repoUrl tsPath tsBranch f) \<noteq> None"
  shows "\<exists>r. processSiteDirectory_ts tw repoUrl tsPath tsBranch = Some r
         \<and> BMNodeFiles r = map Name (filter isBMNodeFile_ts tsItems)
         \<and> tallies r (length (filter isBMNodeFile_ts tsItems))
              (length (filter (\<lambda>f. \<not> file_succeeds_ts tw repoUrl tsPath tsBranch f)
                 (filter isBMNodeFile_ts tsItems)))"
proof -
  let ?s0 = "\<lparr>SitePath = tsPath, Hostnames = [], BMNodeFiles = [], Errors = []\<rparr>"
  let ?m = "filter isBMNodeFile_ts tsItems"
  obtain r where r: "processFiles_ts tw repoUrl tsPath tsBranch ?m ?s0 = Some r"
    "BMNodeFiles r = BMNodeFiles ?s0 @ map Name ?m"
    "length (Hostnames r) = length (Hostnames ?s0)
       + length (filter (file_succeeds_ts tw repoUrl tsPath tsBranch) ?m)"
    "length (Errors r) = length (Errors ?s0)
       + length (filter (\<lambda>f. \<not> file_succeeds_ts tw repoUrl tsPath tsBranch f) ?m)"
    using processFiles_ts_tally [OF f, of ?s0] by blast
  have p: "processSiteDirectory_ts tw repoUrl tsPath tsBranch = Some r"
    using l r(1) by (simp add: processSiteDirectory_ts_def)
  have t: "tallies r (length ?m)
      (length (filter (\<lambda>f. \<not> file_succeeds_ts tw repoUrl tsPath tsBranch f) ?m))"
    using r(2,3,4) filter_split_length [of "file_succeeds_ts tw repoUrl tsPath tsBranch" ?m]
    by (simp add: tallies_def)
  show ?thesis using p r(2) t by simp
qed

lemma processFiles_ts_pending:
  assumes "f \<in> set files"
    and "fetchUrl w (file_url_ts repoUrl sitePath branch f) = None"
  shows "processFiles_ts w repoUrl sitePath branch files siteInfo = None"
  using assms
proof (induction files arbitrary: siteInfo)
  case Nil
  then show ?case by simp
next
  case (Cons g files)
  show ?case
  proof (cases "fetchUrl w (file_url_ts repoUrl sitePath branch g)")
    case None
    then show ?thesis by (simp add: file_url_ts_def Let_def)
  next
    case (Some res)
    then have "g \<noteq> f" using Cons.prems(2) by auto
    then have "f \<in> set files" using Cons.prems(1) by simp
    then have IH: "processFiles_ts w repoUrl sitePath branch files s = None" for s
      using Cons.IH Cons.prems(2) by blast
    show ?thesis using Some
      by (simp add: file_url_ts_def Let_def IH split: sum.splits option.splits)
  qed
qed

lemmas url_defs = convertToGiteaAPIURL_def constructRawURL_def TrimRight_def
  convertToGiteaApiUrl_def constructRawUrl_def dropSlash_def part_def Let_def

lemmas re_defs = MatchString_def FindStringSubmatch_def bmNodeFileRegex_def bmNodeFileRegex_ts_def
  bm_node_re_def hostnameRegex_def hostnameRegex_ts_def hostname_re_def lits_def hostname_key_def
  go_space_def js_space_def go_dot_def js_dot_def quote_def extractHostnameFromContent_def

lemma go_demo_page: "fetchURL go_demo url =
   (case demo_page url of Some body \<Rightarrow> Inr body
    | None \<Rightarrow> Inl (''HTTP 404: 404 Not Found for '' @ url))"
  by (simp add: fetchURL_def go_demo_def decimal.simps digit_def split: option.splits)

lemma ts_demo_page: "fetchUrl ts_demo url =
   Some (case demo_page url of Some body \<Rightarrow> Inr body
    | None \<Rightarrow> Inl (''HTTP 404: Not Found for '' @ url))"
  by (subst fetchUrl.simps) (simp add: ts_demo_def decimal.simps digit_def split: option.splits)

lemma go_demo_listing_sub:
  "getGiteaDirectoryListing go_demo ''h/o/r'' ''root'' ''b'' = Some (Inr demo_sub)"
  by (simp add: getGiteaDirectoryListing_def url_defs go_demo_page demo_page_def)
     (simp add: go_demo_def demo_listing_def demo_sub_def)

lemma ts_demo_listing_sub:
  "getGiteaDirectoryListing_ts ts_demo ''h/o/r'' ''root'' ''b'' = Some demo_sub"
  by (simp add: getGiteaDirectoryListing_ts_def url_defs ts_demo_page demo_page_def)
     (simp add: ts_demo_def demo_listing_def demo_sub_def)

lemma demo_sub_matched:
  "filter isBMNodeFile demo_sub = take 3 demo_sub" "filter isBMNodeFile_ts demo_sub = take 3 demo_sub"
  by (simp_all add: demo_sub_def isBMNodeFile_def isBMNodeFile_ts_def re_defs)

text \<open>
  Claim C1.  The Go backend returns the record with these counts for every site
  directory (\<open>processSiteDirectory_tallies\<close>), and so does the TypeScript extractor
  whenever the fetch of each matched file settles (\<open>processSiteDirectory_ts_tallies\<close>).
  It need not settle: \<open>fetchUrl\<close> settles a response of status 200 on its \<open>end\<close>
  event only, so when the connection is cut before the body ends the promise stays
  pending, the \<open>await\<close> of the TypeScript processor never returns, and the matched
  file gets no outcome: no record is returned.  Evaluated on the site \<open>s\<close> whose one
  matched file is answered in that way; the Go backend, on the same remote, records
  the failure of the file.
\<close>

theorem processSite_cut_body_no_record:
  "getGiteaDirectoryListing_ts ts_cut ''h/o/r'' ''s'' ''b'' = Some cut_site
   \<and> filter isBMNodeFile_ts cut_site = cut_site
   \<and> client_get ts_cut 15000 ''h/o/r/raw/branch/b/s/bm-node-1.yaml''
       = Response 200 ''OK'' [] Aborted
   \<and> fetchUrl ts_cut ''h/o/r/raw/branch/b/s/bm-node-1.yaml'' = None
   \<and> processSiteDirectory_ts ts_cut ''h/o/r'' ''s'' ''b'' = None
   \<and> processSiteDirectory go_cut ''h/o/r'' ''s'' ''b''
       = Some \<lparr>SitePath = ''s'', Hostnames = [], BMNodeFiles = [''bm-node-1.yaml''],
           Errors = [''Error processing bm-node-1.yaml: unexpected EOF'']\<rparr>"
proof -
  have l: "getGiteaDirectoryListing_ts ts_cut ''h/o/r'' ''s'' ''b'' = Some cut_site"
    unfolding getGiteaDirectoryListing_ts_def
    by (subst fetchUrl.simps) (simp add: url_defs ts_cut_def)
  have m: "filter isBMNodeFile_ts cut_site = cut_site"
    by (simp add: cut_site_def isBMNodeFile_ts_def re_defs)
  have c: "client_get ts_cut 15000 ''h/o/r/raw/branch/b/s/bm-node-1.yaml''
       = Response 200 ''OK'' [] Aborted"
    by (simp add: ts_cut_def)
  have f: "fetchUrl ts_cut ''h/o/r/raw/branch/b/s/bm-node-1.yaml'' = None"
    by (subst fetchUrl.simps) (simp add: c)
  have u: "file_url_ts ''h/o/r'' ''s'' ''b'' (hd cut_site)
       = ''h/o/r/raw/branch/b/s/bm-node-1.yaml''"
    by (simp add: file_url_ts_def cut_site_def url_defs)
  have "processFiles_ts ts_cut ''h/o/r'' ''s'' ''b'' cut_site siteInfo = None" for siteInfo
    by (rule processFiles_ts_pending [where f = "hd cut_site"])
       (simp add: cut_site_def, simp only: u f)
  then have t: "processSiteDirectory_ts ts_cut ''h/o/r'' ''s'' ''b'' = None"
    by (simp add: processSiteDirectory_ts_def l m)
  have gl: "getGiteaDirectoryListing go_cut ''h/o/r'' ''s'' ''b'' = Some (Inr cut_site)"
    by (simp add: getGiteaDirectoryListing_def url_defs fetchURL_def go_cut_def)
  have g: "processSiteDirectory go_cut ''h/o/r'' ''s'' ''b''
       = Some \<lparr>SitePath = ''s'', Hostnames = [], BMNodeFiles = [''bm-node-1.yaml''],
           Errors = [''Error processing bm-node-1.yaml: unexpected EOF'']\<rparr>"
    unfolding processSiteDirectory_def gl
    by (simp add: cut_site_def isBMNodeFile_def url_defs re_defs fetchURL_def go_cut_def)
  show ?thesis by (intro conjI l m c f t g)
qed

section \<open>The remote tree client\<close>

lemma listing_not_listable:
  assumes "convertToGiteaAPIURL repoURL path branch = Some apiURL"
    and "fetchURL w apiURL = Inr body" and "json_Unmarshal w body = None"
  shows "getGiteaDirectoryListing w repoURL path branch = Some (Inr [])"
  using assms by (simp add: getGiteaDirectoryListing_def)

lemma listing_not_listable_ts:
  assumes "fetchUrl tw (convertToGiteaApiUrl repoUrl path branch) = Some (Inr response)"
    and "JSON_parse tw response = None"
  shows "getGiteaDirectoryListing_ts tw repoUrl path branch = Some []"
  using assms by (simp add: getGiteaDirectoryListing_ts_def)

lemma discover_empty_listing:
  "getGiteaDirectoryListing w repoURL path branch = Some (Inr []) \<Longrightarrow>
   discoverSitesRecursively w repoURL path branch = [WgDone]"
  by (simp add: discoverSitesRecursively_def)

lemma discover_ts_empty_listing:
  "getGiteaDirectoryListing_ts tw repoUrl path branch = Some [] \<Longrightarrow>
   discoverSitesRecursively_ts (Suc fuel) tw repoUrl path branch siteMap = Some siteMap"
  by (simp add: isSiteDirectory_ts_def)

text \<open>
  Claim C6.  When the listing request succeeds but its body is not a listable
  collection (it does not decode into an array of entries), the listing is empty, not
  a failure, in both implementations; the walk then finishes that directory normally,
  publishing nothing and starting no child.
\<close>

theorem listing_not_listable_is_empty:
  "(convertToGiteaAPIURL repoURL path branch = Some apiURL \<and> fetchURL w apiURL = Inr body
      \<and> json_Unmarshal w body = None
     \<longrightarrow> getGiteaDirectoryListing w repoURL path branch = Some (Inr [])
        \<and> discoverSitesRecursively w repoURL path branch = [WgDone])
   \<and> (fetchUrl tw (convertToGiteaApiUrl repoUrl tsPath tsBranch) = Some (Inr response)
      \<and> JSON_parse tw response = None
     \<longrightarrow> getGiteaDirectoryListing_ts tw repoUrl tsPath tsBranch = Some []
        \<and> discoverSitesRecursively_ts (Suc fuel) tw repoUrl tsPath tsBranch siteMap
            = Some siteMap)"
  using listing_not_listable discover_empty_listing listing_not_listable_ts
    discover_ts_empty_listing
  by metis

theorem listing_not_listable_is_empty_witness:
  "getGiteaDirectoryListing go_demo ''h/o/r'' ''root/notes.txt'' ''b'' = Some (Inr [])
   \<and> discoverSitesRecursively go_demo ''h/o/r'' ''root/notes.txt'' ''b'' = [WgDone]
   \<and> getGiteaDirectoryListing_ts ts_demo ''h/o/r'' ''root/notes.txt'' ''b'' = Some []
   \<and> discoverSitesRecursively_ts (Suc 0) ts_demo ''h/o/r'' ''root/notes.txt'' ''b'' []
        = Some []"
proof -
  have a: "convertToGiteaAPIURL ''h/o/r'' ''root/notes.txt'' ''b''
      = Some ''h/api/v1/repos/o/r/contents/root/notes.txt?ref=b''"
    by (simp add: url_defs)
  have b: "fetchURL go_demo ''h/api/v1/repos/o/r/contents/root/notes.txt?ref=b'' = Inr ''FILE''"
    by (simp add: go_demo_page demo_page_def)
  have c: "json_Unmarshal go_demo ''FILE'' = None"
    by (simp add: go_demo_def demo_listing_def)
  have d: "fetchUrl ts_demo (convertToGiteaApiUrl ''h/o/r'' ''root/notes.txt'' ''b'')
      = Some (Inr ''FILE'')"
    by (simp add: url_defs ts_demo_page demo_page_def)
  have e: "JSON_parse ts_demo ''FILE'' = None"
    by (simp add: ts_demo_def demo_listing_def)
  show ?thesis
    using listing_not_listable_is_empty [of "''h/o/r''" "''root/notes.txt''" "''b''"
        "''h/api/v1/repos/o/r/contents/root/notes.txt?ref=b''" go_demo "''FILE''"
        ts_demo "''h/o/r''" "''root/notes.txt''" "''b''" "''FILE''" 0 "[]"] a b c d e
    by blast
qed

section \<open>Listing failure inside the site processor\<close>

lemma processSiteDirectory_listing_failure:
  "getGiteaDirectoryListing w repoURL sitePath branch = Some (Inl err) \<Longrightarrow>
   processSiteDirectory w repoURL sitePath branch
     = Some \<lparr>SitePath = sitePath, Hostnames = [], BMNodeFiles = [], Errors = [err]\<rparr>"
  by (simp add: processSiteDirectory_def)

lemma processSiteDirectory_ts_listing_failure:
  "fetchUrl tw (convertToGiteaApiUrl repoUrl sitePath branch) = Some (Inl message) \<Longrightarrow>
   processSiteDirectory_ts tw repoUrl sitePath branch
     = Some \<lparr>SitePath = sitePath, Hostnames = [], BMNodeFiles = [], Errors = []\<rparr>"
  by (simp add: processSiteDirectory_ts_def getGiteaDirectoryListing_ts_def)

text \<open>
  Claim C3.  When the listing request of the site processor fails, the Go backend
  returns a record whose errors hold the failure and whose other sequences are empty
  (\<open>processSiteDirectory_listing_failure\<close>).  The TypeScript extractor does not: its
  listing turns the failure into an empty listing, so the record has no error at all.
  Both are evaluated here on a directory whose listing answers 404.
\<close>

theorem processSite_listing_failure_ts_silent:
  "fetchUrl ts_demo (convertToGiteaApiUrl ''h/o/r'' ''gone'' ''b'')
     = Some (Inl ''HTTP 404: Not Found for h/api/v1/repos/o/r/contents/gone?ref=b'')
   \<and> processSiteDirectory_ts ts_demo ''h/o/r'' ''gone'' ''b''
     = Some \<lparr>SitePath = ''gone'', Hostnames = [], BMNodeFiles = [], Errors = []\<rparr>
   \<and> processSiteDirectory go_demo ''h/o/r'' ''gone'' ''b''
     = Some \<lparr>SitePath = ''gone'', Hostnames = [], BMNodeFiles = [],
         Errors = [''HTTP 404: 404 Not Found for h/api/v1/repos/o/r/contents/gone?ref=b'']\<rparr>"
proof -
  have t: "fetchUrl ts_demo (convertToGiteaApiUrl ''h/o/r'' ''gone'' ''b'')
     = Some (Inl ''HTTP 404: Not Found for h/api/v1/repos/o/r/contents/gone?ref=b'')"
    by (simp add: url_defs ts_demo_page demo_page_def)
  have g: "getGiteaDirectoryListing go_demo ''h/o/r'' ''gone'' ''b''
     = Some (Inl ''HTTP 404: 404 Not Found for h/api/v1/repos/o/r/contents/gone?ref=b'')"
    by (simp add: getGiteaDirectoryListing_def url_defs go_demo_page demo_page_def)
  show ?thesis
    using t processSiteDirectory_ts_listing_failure [OF t]
      processSiteDirectory_listing_failure [OF g]
    by simp
qed

section \<open>Failures of a fetch\<close>

lemma fetchUrl_unfold:
  "fetchUrl tw url =
     (case client_get tw 15000 url of
        Throws message \<Rightarrow> Some (Inl message)
      | RequestError message \<Rightarrow> Some (Inl (''Request failed for '' @ url @ '': '' @ message))
      | RequestTimeout \<Rightarrow> Some (Inl (''Request timeout for '' @ url))
      | Response statusCode statusMessage location body \<Rightarrow>
          if (statusCode = 301 \<or> statusCode = 302) \<and> location \<noteq> [] then fetchUrl tw location
          else if statusCode \<noteq> 200
          then Some (Inl (''HTTP '' @ decimal statusCode @ '': '' @ statusMessage
                          @ '' for '' @ url))
          else (case body of
                  End data \<Rightarrow> Some (Inr data)
                | Idle \<Rightarrow> Some (Inl (''Request timeout for '' @ url))
                | Aborted \<Rightarrow> None))"
  by (rule fetchUrl.simps)

lemma fetchUrl_same_timeout_le:
  assumes agree: "\<And>u. client_get tw' 15000 u = client_get tw 15000 u"
    and res: "fetchUrl tw' url = Some y"
  shows "fetchUrl tw url = Some y"
proof -
  have "w = tw' \<longrightarrow> fetchUrl tw u = Some z" if "fetchUrl w u = Some z" for w u z
  proof (rule fetchUrl.raw_induct [where P = "\<lambda>w u z. w = tw' \<longrightarrow> fetchUrl tw u = Some z", OF _ that])
    fix f w u z
    assume IH: "\<And>w u z. f w u = Some z \<Longrightarrow> w = tw' \<longrightarrow> fetchUrl tw u = Some z"
      and step: "(case client_get w 15000 u of
        Throws message \<Rightarrow> Some (Inl message)
      | RequestError message \<Rightarrow> Some (Inl (''Request failed for '' @ u @ '': '' @ message))
      | RequestTimeout \<Rightarrow> Some (Inl (''Request timeout for '' @ u))
      | Response statusCode statusMessage location body \<Rightarrow>
          if (statusCode = 301 \<or> statusCode = 302) \<and> location \<noteq> [] then f w location
          else if statusCode \<noteq> 200
          then Some (Inl (''HTTP '' @ decimal statusCode @ '': '' @ statusMessage
                          @ '' for '' @ u))
          else (case body of
                  End data \<Rightarrow> Some (Inr data)
                | Idle \<Rightarrow> Some (Inl (''Request timeout for '' @ u))
                | Aborted \<Rightarrow> None)) = Some z"
    show "w = tw' \<longrightarrow> fetchUrl tw u = Some z"
    proof
      assume w: "w = tw'"
      show "fetchUrl tw u = Some z"
      proof (cases "client_get tw 15000 u")
        case (Response code status location body)
        show ?thesis
        proof (cases "(code = 301 \<or> code = 302) \<and> location \<noteq> []")
          case True
          then have "f tw' location = Some z" using step w agree [of u] Response by simp
          then have "fetchUrl tw location = Some z" using IH by blast
          then show ?thesis using True Response by (subst fetchUrl_unfold) simp
        next
          case False
          then show ?thesis using step w agree [of u] Response
            by (subst fetchUrl_unfold) (auto split: node_body.splits)
        qed
      qed (use step w agree [of u] in \<open>subst fetchUrl_unfold, simp\<close>)+
    qed
  qed
  then show ?thesis using res by blast
qed

lemma fetchUrl_same_timeout:
  assumes "\<And>u. client_get tw' 15000 u = client_get tw 15000 u"
  shows "fetchUrl tw' url = fetchUrl tw url"
proof (cases "fetchUrl tw' url")
  case (Some y)
  then show ?thesis using fetchUrl_same_timeout_le [OF assms] by simp
next
  case None
  show ?thesis
  proof (cases "fetchUrl tw url")
    case (Some y)
    then have "fetchUrl tw' url = Some y"
      using fetchUrl_same_timeout_le [of tw tw' url y] assms by simp
    then show ?thesis using None by simp
  qed (simp add: None)
qed

text \<open>A redirect that leads back to itself: the fetch never settles.\<close>

lemma fetchUrl_settles_not:
  "fetchUrl ts_redirect ''L'' = None"
proof -
  have "\<not> (w = ts_redirect \<and> url = ''L'')" if "fetchUrl w url = Some y" for w url y
  proof (rule fetchUrl.raw_induct [where P = "\<lambda>w url y. \<not> (w = ts_redirect \<and> url = ''L'')", OF _ that])
    fix f w url y
    assume IH: "\<And>w url y. f w url = Some y \<Longrightarrow> \<not> (w = ts_redirect \<and> url = ''L'')"
      and step: "(case client_get w 15000 url of
        Throws message \<Rightarrow> Some (Inl message)
      | RequestError message \<Rightarrow> Some (Inl (''Request failed for '' @ url @ '': '' @ message))
      | RequestTimeout \<Rightarrow> Some (Inl (''Request timeout for '' @ url))
      | Response statusCode statusMessage location body \<Rightarrow>
          if (statusCode = 301 \<or> statusCode = 302) \<and> location \<noteq> [] then f w location
          else if statusCode \<noteq> 200
          then Some (Inl (''HTTP '' @ decimal statusCode @ '': '' @ statusMessage
                          @ '' for '' @ url))
          else (case body of
                  End data \<Rightarrow> Some (Inr data)
                | Idle \<Rightarrow> Some (Inl (''Request timeout for '' @ url))
                | Aborted \<Rightarrow> None)) = Some y"
    show "\<not> (w = ts_redirect \<and> url = ''L'')"
    proof
      assume a: "w = ts_redirect \<and> url = ''L''"
      then have "f ts_redirect ''L'' = Some y"
        using step by (simp add: ts_redirect_def)
      then show False using IH by blast
    qed
  qed
  then show ?thesis by (cases "fetchUrl ts_redirect ''L''") auto
qed

text \<open>
  Claim C9, as stated, fails on the TypeScript extractor: a response with the non-2xx
  status 302 and a \<open>location\<close> header is not returned as a failure; the fetch follows
  it and here succeeds.
\<close>

theorem fetch_redirect_counterexample:
  "client_get ts_redirect 15000 ''U'' = Response 302 ''Found'' ''V'' (End [])
   \<and> fetchUrl ts_redirect ''U'' = Some (Inr ''ok'')"
proof -
  have v: "fetchUrl ts_redirect ''V'' = Some (Inr ''ok'')"
    by (subst fetchUrl_unfold) (simp add: ts_redirect_def)
  have "fetchUrl ts_redirect ''U'' = fetchUrl ts_redirect ''V''"
    by (subst fetchUrl_unfold) (simp add: ts_redirect_def)
  then show ?thesis using v by (simp add: ts_redirect_def)
qed

text \<open>
  Claim C9, amended: the TypeScript extractor follows a 301 or 302 response that has a
  \<open>location\<close>, and the fetch then ends as the fetch of the location does.  Apart from
  that, every fetch is made under a timeout of 15 seconds (Go: the \<open>Timeout\<close> of the
  client that makes the request; TypeScript: the 15000 ms of \<open>setTimeout\<close> on the
  request), the requests of a redirected fetch included: what the remote would do
  under another timeout changes no fetch.  Every outcome that is not a success is
  returned as a failure with a message: in Go an error of the transport (connection
  failure, timeout), a status other than 200 and an error while the body is read; in
  TypeScript a throwing call, an \<open>error\<close> event, the timeout before a response or
  while the body is awaited, and a status other than 200.  The fetch succeeds on a
  status 200 whose body is read to its end.  \<open>fetchURL\<close> is a total function and
  \<open>fetchUrl\<close> turns a throwing call into a rejection: neither surfaces a crash.
  Nothing is stated of a TypeScript response of status 200 whose connection is cut
  before the body ends, nor of redirects that never come to an end.
\<close>

theorem fetch_failures:
  "Timeout fetchURL_client = 15 * Second
   \<and> (http_Get w fetchURL_client url = GetFailed err \<longrightarrow> fetchURL w url = Inl err)
   \<and> (http_Get w fetchURL_client url = Responded code status body \<and> code \<noteq> 200 \<longrightarrow>
        fetchURL w url = Inl (''HTTP '' @ decimal code @ '': '' @ status @ '' for '' @ url))
   \<and> (http_Get w fetchURL_client url = Responded 200 status (Inl err) \<longrightarrow>
        fetchURL w url = Inl err)
   \<and> (http_Get w fetchURL_client url = Responded 200 status (Inr content) \<longrightarrow>
        fetchURL w url = Inr content)
   \<and> (client_get tw 15000 url = Throws message \<longrightarrow> fetchUrl tw url = Some (Inl message))
   \<and> (client_get tw 15000 url = RequestError message \<longrightarrow>
        fetchUrl tw url = Some (Inl (''Request failed for '' @ url @ '': '' @ message)))
   \<and> (client_get tw 15000 url = RequestTimeout \<longrightarrow>
        fetchUrl tw url = Some (Inl (''Request timeout for '' @ url)))
   \<and> (client_get tw 15000 url = Response code status location answer
        \<and> (code = 301 \<or> code = 302) \<and> location \<noteq> [] \<longrightarrow>
        fetchUrl tw url = fetchUrl tw location)
   \<and> (client_get tw 15000 url = Response code status location answer \<and> code \<noteq> 200
        \<and> \<not> ((code = 301 \<or> code = 302) \<and> location \<noteq> []) \<longrightarrow>
        fetchUrl tw url
          = Some (Inl (''HTTP '' @ decimal code @ '': '' @ status @ '' for '' @ url)))
   \<and> (client_get tw 15000 url = Response 200 status location Idle \<longrightarrow>
        fetchUrl tw url = Some (Inl (''Request timeout for '' @ url)))
   \<and> (client_get tw 15000 url = Response 200 status location (End content) \<longrightarrow>
        fetchUrl tw url = Some (Inr content))
   \<and> ((\<forall>u. http_Get w' fetchURL_client u = http_Get w fetchURL_client u) \<longrightarrow>
        fetchURL w' url = fetchURL w url)
   \<and> ((\<forall>u. client_get tw' 15000 u = client_get tw 15000 u) \<longrightarrow>
        fetchUrl tw' url = fetchUrl tw url)"
proof -
  note ts = fetchUrl_unfold [of tw url]
  show ?thesis
    apply (intro conjI impI)
                 apply (simp add: fetchURL_client_def)
                apply (simp add: fetchURL_def)
               apply (simp add: fetchURL_def)
              apply (simp add: fetchURL_def)
             apply (simp add: fetchURL_def)
            apply (subst ts, simp)
           apply (subst ts, simp)
          apply (subst ts, simp)
         apply (subst ts, simp)
        apply (subst ts, auto)[1]
       apply (subst ts, simp)
      apply (subst ts, simp)
     apply (simp add: fetchURL_def)
    apply (rule fetchUrl_same_timeout, simp)
    done
qed

theorem fetch_failures_witness:
  "fetchURL go_down ''gone'' = Inl ''connection refused''
   \<and> fetchURL go_slow ''S''
      = Inl ''context deadline exceeded (Client.Timeout exceeded while awaiting headers)''
   \<and> fetchUrl ts_redirect ''S'' = Some (Inl (''Request timeout for '' @ ''S''))
   \<and> fetchURL go_demo ''gone''
      = Inl (''HTTP '' @ decimal 404 @ '': '' @ ''404 Not Found'' @ '' for '' @ ''gone'')
   \<and> fetchURL go_cut ''h/o/r/raw/branch/b/s/bm-node-1.yaml'' = Inl ''unexpected EOF''
   \<and> fetchURL go_cut ''h/api/v1/repos/o/r/contents/s?ref=b'' = Inr ''SITE''
   \<and> fetchUrl ts_redirect ''T'' = Some (Inl ''Invalid URL'')
   \<and> fetchUrl ts_demo_refused ''gone''
      = Some (Inl (''Request failed for '' @ ''gone'' @ '': '' @ ''connection refused''))
   \<and> fetchUrl ts_redirect ''X'' = Some (Inl (''Request timeout for '' @ ''X''))
   \<and> fetchUrl ts_redirect ''U'' = fetchUrl ts_redirect ''V''
   \<and> fetchUrl ts_redirect ''V'' = Some (Inr ''ok'')
   \<and> fetchUrl ts_redirect ''I'' = Some (Inl (''Request timeout for '' @ ''I''))
   \<and> fetchUrl ts_demo ''gone''
      = Some (Inl (''HTTP '' @ decimal 404 @ '': '' @ ''Not Found'' @ '' for '' @ ''gone''))
   \<and> fetchURL go_slow_15 ''S'' = fetchURL go_slow ''S''
   \<and> fetchUrl ts_redirect_15 ''S'' = fetchUrl ts_redirect ''S''"
proof -
  have a0: "http_Get go_down fetchURL_client ''gone'' = GetFailed ''connection refused''"
    by (simp add: go_down_def)
  have a1: "http_Get go_slow fetchURL_client ''S''
      = GetFailed ''context deadline exceeded (Client.Timeout exceeded while awaiting headers)''"
    by (simp add: go_slow_def fetchURL_client_def Second_def)
  have b2: "client_get ts_redirect 15000 ''S'' = RequestTimeout"
    by (simp add: ts_redirect_def)
  have a: "http_Get go_demo fetchURL_client ''gone'' = Responded 404 ''404 Not Found'' (Inr [])
      \<and> (404::nat) \<noteq> 200"
    by (simp add: go_demo_def demo_page_def)
  have a2: "http_Get go_cut fetchURL_client ''h/o/r/raw/branch/b/s/bm-node-1.yaml''
      = Responded 200 ''200 OK'' (Inl ''unexpected EOF'')"
    by (simp add: go_cut_def)
  have a3: "http_Get go_cut fetchURL_client ''h/api/v1/repos/o/r/contents/s?ref=b''
      = Responded 200 ''200 OK'' (Inr ''SITE'')"
    by (simp add: go_cut_def)
  have b0: "client_get ts_redirect 15000 ''T'' = Throws ''Invalid URL''"
    by (simp add: ts_redirect_def)
  have b1: "client_get ts_demo_refused 15000 ''gone'' = RequestError ''connection refused''"
    by (simp add: ts_demo_refused_def)
  have b: "client_get ts_redirect 15000 ''X'' = RequestTimeout"
    by (simp add: ts_redirect_def)
  have c: "client_get ts_redirect 15000 ''U'' = Response 302 ''Found'' ''V'' (End [])
      \<and> ((302::nat) = 301 \<or> (302::nat) = 302) \<and> ''V'' \<noteq> []"
    by (simp add: ts_redirect_def)
  have d: "client_get ts_redirect 15000 ''V'' = Response 200 ''OK'' [] (End ''ok'')"
    by (simp add: ts_redirect_def)
  have i: "client_get ts_redirect 15000 ''I'' = Response 200 ''OK'' [] Idle"
    by (simp add: ts_redirect_def)
  have e: "client_get ts_demo 15000 ''gone'' = Response 404 ''Not Found'' [] (End [])
      \<and> (404::nat) \<noteq> 200
      \<and> \<not> (((404::nat) = 301 \<or> (404::nat) = 302) \<and> ([]::string) \<noteq> [])"
    by (simp add: ts_demo_def demo_page_def)
  note c2 = conjunct2
  have g0: "fetchURL go_down ''gone'' = Inl ''connection refused''"
    by (rule fetch_failures [where w = go_down and url = "''gone''",
        THEN c2, THEN conjunct1, THEN mp, OF a0])
  have g1: "fetchURL go_slow ''S''
      = Inl ''context deadline exceeded (Client.Timeout exceeded while awaiting headers)''"
    by (rule fetch_failures [where w = go_slow and url = "''S''",
        THEN c2, THEN conjunct1, THEN mp, OF a1])
  have x2: "fetchUrl ts_redirect ''S'' = Some (Inl (''Request timeout for '' @ ''S''))"
    by (rule fetch_failures [where tw = ts_redirect and url = "''S''",
        THEN c2, THEN c2, THEN c2, THEN c2, THEN c2, THEN c2, THEN c2, THEN conjunct1,
        THEN mp, OF b2])
  have g: "fetchURL go_demo ''gone''
      = Inl (''HTTP '' @ decimal 404 @ '': '' @ ''404 Not Found'' @ '' for '' @ ''gone'')"
    by (rule fetch_failures [where w = go_demo and url = "''gone''" and code = 404
        and status = "''404 Not Found''" and body = "Inr []",
        THEN c2, THEN c2, THEN conjunct1, THEN mp, OF a])
  have g2: "fetchURL go_cut ''h/o/r/raw/branch/b/s/bm-node-1.yaml'' = Inl ''unexpected EOF''"
    by (rule fetch_failures [where w = go_cut and status = "''200 OK''",
        THEN c2, THEN c2, THEN c2, THEN conjunct1, THEN mp, OF a2])
  have g3: "fetchURL go_cut ''h/api/v1/repos/o/r/contents/s?ref=b'' = Inr ''SITE''"
    by (rule fetch_failures [where w = go_cut and status = "''200 OK''",
        THEN c2, THEN c2, THEN c2, THEN c2, THEN conjunct1, THEN mp, OF a3])
  have t: "fetchUrl ts_redirect ''T'' = Some (Inl ''Invalid URL'')"
    by (rule fetch_failures [where tw = ts_redirect and url = "''T''",
        THEN c2, THEN c2, THEN c2, THEN c2, THEN c2, THEN conjunct1, THEN mp, OF b0])
  have q: "fetchUrl ts_demo_refused ''gone''
      = Some (Inl (''Request failed for '' @ ''gone'' @ '': '' @ ''connection refused''))"
    by (rule fetch_failures [where tw = ts_demo_refused and url = "''gone''",
        THEN c2, THEN c2, THEN c2, THEN c2, THEN c2, THEN c2, THEN conjunct1, THEN mp, OF b1])
  have x: "fetchUrl ts_redirect ''X'' = Some (Inl (''Request timeout for '' @ ''X''))"
    by (rule fetch_failures [where tw = ts_redirect and url = "''X''",
        THEN c2, THEN c2, THEN c2, THEN c2, THEN c2, THEN c2, THEN c2, THEN conjunct1,
        THEN mp, OF b])
  have r: "fetchUrl ts_redirect ''U'' = fetchUrl ts_redirect ''V''"
    by (rule fetch_failures [where tw = ts_redirect and url = "''U''" and code = 302
        and status = "''Found''" and location = "''V''" and answer = "End []",
        THEN c2, THEN c2, THEN c2, THEN c2, THEN c2, THEN c2, THEN c2, THEN c2,
        THEN conjunct1, THEN mp, OF c])
  have n: "fetchUrl ts_demo ''gone''
      = Some (Inl (''HTTP '' @ decimal 404 @ '': '' @ ''Not Found'' @ '' for '' @ ''gone''))"
    by (rule fetch_failures [where tw = ts_demo and url = "''gone''" and code = 404
        and status = "''Not Found''" and location = "[]" and answer = "End []",
        THEN c2, THEN c2, THEN c2, THEN c2, THEN c2, THEN c2, THEN c2, THEN c2, THEN c2,
        THEN conjunct1, THEN mp, OF e])
  have k: "fetchUrl ts_redirect ''I'' = Some (Inl (''Request timeout for '' @ ''I''))"
    by (rule fetch_failures [where tw = ts_redirect and url = "''I''" and status = "''OK''"
        and location = "[]",
        THEN c2, THEN c2, THEN c2, THEN c2, THEN c2, THEN c2, THEN c2, THEN c2, THEN c2,
        THEN c2, THEN conjunct1, THEN mp, OF i])
  have v: "fetchUrl ts_redirect ''V'' = Some (Inr ''ok'')"
    by (rule fetch_failures [where tw = ts_redirect and url = "''V''" and status = "''OK''"
        and location = "[]" and content = "''ok''",
        THEN c2, THEN c2, THEN c2, THEN c2, THEN c2, THEN c2, THEN c2, THEN c2, THEN c2,
        THEN c2, THEN c2, THEN conjunct1, THEN mp, OF d])
  have s1: "\<forall>u. http_Get go_slow_15 fetchURL_client u = http_Get go_slow fetchURL_client u"
    by (simp add: go_slow_15_def)
  have s2: "\<forall>u. client_get ts_redirect_15 15000 u = client_get ts_redirect 15000 u"
    by (simp add: ts_redirect_15_def)
  have f1: "fetchURL go_slow_15 ''S'' = fetchURL go_slow ''S''"
    by (rule fetch_failures [where w' = go_slow_15 and w = go_slow and url = "''S''",
        THEN c2, THEN c2, THEN c2, THEN c2, THEN c2, THEN c2, THEN c2, THEN c2, THEN c2,
        THEN c2, THEN c2, THEN c2, THEN conjunct1, THEN mp, OF s1])
  have f2: "fetchUrl ts_redirect_15 ''S'' = fetchUrl ts_redirect ''S''"
    by (rule fetch_failures [where tw' = ts_redirect_15 and tw = ts_redirect
        and url = "''S''",
        THEN c2, THEN c2, THEN c2, THEN c2, THEN c2, THEN c2, THEN c2, THEN c2, THEN c2,
        THEN c2, THEN c2, THEN c2, THEN c2, THEN mp, OF s2])
  show ?thesis
    by (intro conjI) (fact g0, fact g1, fact x2, fact g, fact g2, fact g3, fact t, fact q, fact x,
        fact r, fact v, fact k, fact n, fact f1, fact f2)
qed

section \<open>The locator of a matched file\<close>

lemma processFiles_outcomes:
  assumes "\<forall>f\<in>set (filter isBMNodeFile items).
      constructRawURL repoURL (sitePath @ ''/'' @ Name f) branch = Some (locator f)"
  shows "processFiles w repoURL sitePath branch items siteInfo =
     Some (siteInfo\<lparr>
       Hostnames := Hostnames siteInfo @ hostnames_of
         (map (\<lambda>f. outcome_of (FindStringSubmatch hostnameRegex) (Name f)
                 (fetchURL w (locator f))) (filter isBMNodeFile items)),
       BMNodeFiles := BMNodeFiles siteInfo @ map Name (filter isBMNodeFile items),
       Errors := Errors siteInfo @ errors_of
         (map (\<lambda>f. outcome_of (FindStringSubmatch hostnameRegex) (Name f)
                 (fetchURL w (locator f))) (filter isBMNodeFile items))\<rparr>)"
  using assms
proof (induction items arbitrary: siteInfo)
  case Nil
  show ?case by simp
next
  case (Cons f items)
  have rest: "\<forall>g\<in>set (filter isBMNodeFile items).
      constructRawURL repoURL (sitePath @ ''/'' @ Name g) branch = Some (locator g)"
    using Cons.prems by (auto split: if_splits)
  note IH = Cons.IH [OF rest]
  show ?case
  proof (cases "isBMNodeFile f")
    case False
    then show ?thesis using IH [of siteInfo] by simp
  next
    case True
    then have u: "constructRawURL repoURL (sitePath @ ''/'' @ Name f) branch = Some (locator f)"
      using Cons.prems by simp
    let ?s1 = "siteInfo\<lparr>BMNodeFiles := BMNodeFiles siteInfo @ [Name f]\<rparr>"
    show ?thesis
    proof (cases "fetchURL w (locator f)")
      case (Inl err)
      then show ?thesis
        using True u
          IH [of "?s1\<lparr>Errors := Errors ?s1 @ [''Error processing '' @ Name f @ '': '' @ err]\<rparr>"]
        by (simp add: outcome_of_def)
    next
      case (Inr content)
      show ?thesis
      proof (cases "FindStringSubmatch hostnameRegex content")
        case None
        then show ?thesis
          using True u Inr
            IH [of "?s1\<lparr>Errors := Errors ?s1 @ [''No hostname annotation found in '' @ Name f]\<rparr>"]
          by (simp add: outcome_of_def)
      next
        case (Some h)
        then show ?thesis
          using True u Inr IH [of "?s1\<lparr>Hostnames := Hostnames ?s1 @ [h]\<rparr>"]
          by (simp add: outcome_of_def)
      qed
    qed
  qed
qed

lemma processFiles_ts_outcomes:
  assumes "\<forall>f\<in>set files. fetchUrl w (file_url_ts repoUrl sitePath branch f) = Some (fetched f)"
  shows "processFiles_ts w repoUrl sitePath branch files siteInfo =
     Some (siteInfo\<lparr>
       Hostnames := Hostnames siteInfo @ hostnames_of
         (map (\<lambda>f. outcome_of extractHostnameFromContent (Name f) (fetched f)) files),
       BMNodeFiles := BMNodeFiles siteInfo @ map Name files,
       Errors := Errors siteInfo @ errors_of
         (map (\<lambda>f. outcome_of extractHostnameFromContent (Name f) (fetched f)) files)\<rparr>)"
  using assms
proof (induction files arbitrary: siteInfo)
  case Nil
  show ?case by simp
next
  case (Cons f files)
  have res: "fetchUrl w (file_url_ts repoUrl sitePath branch f) = Some (fetched f)"
    using Cons.prems by simp
  have rest: "\<forall>g\<in>set files.
      fetchUrl w (file_url_ts repoUrl sitePath branch g) = Some (fetched g)"
    using Cons.prems by simp
  note IH = Cons.IH [OF rest]
  let ?s1 = "siteInfo\<lparr>BMNodeFiles := BMNodeFiles siteInfo @ [Name f]\<rparr>"
  show ?case
  proof (cases "fetched f")
    case (Inl message)
    then show ?thesis
      using res
        IH [of "?s1\<lparr>Errors := Errors ?s1 @ [''Error processing '' @ Name f @ '': '' @ message]\<rparr>"]
      by (simp add: outcome_of_def file_url_ts_def Let_def)
  next
    case (Inr content)
    show ?thesis
    proof (cases "extractHostnameFromContent content")
      case None
      then show ?thesis
        using res Inr
          IH [of "?s1\<lparr>Errors := Errors ?s1 @ [''No hostname annotation found in '' @ Name f]\<rparr>"]
        by (simp add: outcome_of_def file_url_ts_def Let_def)
    next
      case (Some h)
      then have "h \<noteq> []"
        using search_hostname_nonempty [where sp = js_space and content = content and v = h,
            OF js_space_not_quote]
        by (simp add: extractHostnameFromContent_def FindStringSubmatch_def hostnameRegex_ts_def)
      then show ?thesis
        using res Inr Some IH [of "?s1\<lparr>Hostnames := Hostnames ?s1 @ [h]\<rparr>"]
        by (simp add: outcome_of_def file_url_ts_def Let_def)
    qed
  qed
qed

text \<open>
  Claim C5, as stated, fails on the Go backend: in the small tree the entry
  \<open>bm-node-2.yaml\<close> carries the direct locator \<open>D2\<close>, whose content holds the hostname
  \<open>d2\<close>, yet the record holds \<open>n2\<close>, the hostname served at the synthesized raw URL.
\<close>

theorem direct_locator_counterexample:
  "getGiteaDirectoryListing go_demo ''h/o/r'' ''root'' ''b'' = Some (Inr demo_sub)
   \<and> isBMNodeFile (hd demo_sub) \<and> DownloadURL (hd demo_sub) = ''D2''
   \<and> fetchURL go_demo ''D2'' = Inr (hostname_key @ '' d2'')
   \<and> FindStringSubmatch hostnameRegex (hostname_key @ '' d2'') = Some ''d2''
   \<and> processSiteDirectory go_demo ''h/o/r'' ''root'' ''b''
      = Some \<lparr>SitePath = ''root'', Hostnames = [''n2''],
          BMNodeFiles = [''bm-node-2.yaml'', ''bm-node-3.yaml'', ''bm-node-4.yaml''],
          Errors = [''No hostname annotation found in bm-node-3.yaml'',
            ''Error processing bm-node-4.yaml: HTTP 404: 404 Not Found for h/o/r/raw/branch/b/root/bm-node-4.yaml'']\<rparr>"
proof (intro conjI)
  show "getGiteaDirectoryListing go_demo ''h/o/r'' ''root'' ''b'' = Some (Inr demo_sub)"
    by (rule go_demo_listing_sub)
  show "isBMNodeFile (hd demo_sub)"
    by (simp add: demo_sub_def isBMNodeFile_def re_defs)
  show "DownloadURL (hd demo_sub) = ''D2''" by (simp add: demo_sub_def)
  show "fetchURL go_demo ''D2'' = Inr (hostname_key @ '' d2'')"
    by (simp add: go_demo_page demo_page_def)
  show "FindStringSubmatch hostnameRegex (hostname_key @ '' d2'') = Some ''d2''"
    by (simp add: re_defs)
  show "processSiteDirectory go_demo ''h/o/r'' ''root'' ''b''
      = Some \<lparr>SitePath = ''root'', Hostnames = [''n2''],
          BMNodeFiles = [''bm-node-2.yaml'', ''bm-node-3.yaml'', ''bm-node-4.yaml''],
          Errors = [''No hostname annotation found in bm-node-3.yaml'',
            ''Error processing bm-node-4.yaml: HTTP 404: 404 Not Found for h/o/r/raw/branch/b/root/bm-node-4.yaml'']\<rparr>"
    unfolding processSiteDirectory_def go_demo_listing_sub
    by (simp add: demo_sub_def isBMNodeFile_def url_defs go_demo_page demo_page_def re_defs)
qed

text \<open>
  Claim C5, amended.  The TypeScript processor fetches a matched file at its direct
  locator when the entry has one and at the locator synthesized from repository, path
  and branch otherwise; the Go backend fetches every matched file at the synthesized
  locator, which exists whenever the listing was obtained, and never reads the direct
  one.  The record is made of what these fetches return: for each matched file, in
  the order of the listing, the hostname read from the content fetched at that
  locator, or the error of that fetch or of the missing annotation.
\<close>

theorem locator_of_matched_file:
  "(getGiteaDirectoryListing w repoURL sitePath branch = Some (Inr items)
    \<longrightarrow> (\<exists>u. constructRawURL repoURL (sitePath @ ''/'' @ fileName) branch = Some u))
   \<and> (getGiteaDirectoryListing w repoURL sitePath branch = Some (Inr items)
    \<and> (\<forall>f\<in>set (filter isBMNodeFile items).
          constructRawURL repoURL (sitePath @ ''/'' @ Name f) branch = Some (locator f))
    \<longrightarrow> processSiteDirectory w repoURL sitePath branch
        = Some (record_of sitePath (filter isBMNodeFile items)
            (map (\<lambda>f. outcome_of (FindStringSubmatch hostnameRegex) (Name f)
                    (fetchURL w (locator f)))
               (filter isBMNodeFile items))))
   \<and> (getGiteaDirectoryListing_ts tw repoUrl tsPath tsBranch = Some tsItems
    \<and> (\<forall>f\<in>set (filter isBMNodeFile_ts tsItems).
          fetchUrl tw (if DownloadURL f \<noteq> [] then DownloadURL f
                       else constructRawUrl repoUrl (tsPath @ ''/'' @ Name f) tsBranch)
          = Some (fetched f))
    \<longrightarrow> processSiteDirectory_ts tw repoUrl tsPath tsBranch
        = Some (record_of tsPath (filter isBMNodeFile_ts tsItems)
            (map (\<lambda>f. outcome_of extractHostnameFromContent (Name f) (fetched f))
               (filter isBMNodeFile_ts tsItems))))"
proof (intro conjI impI)
  assume "getGiteaDirectoryListing w repoURL sitePath branch = Some (Inr items)"
  then show "\<exists>u. constructRawURL repoURL (sitePath @ ''/'' @ fileName) branch = Some u"
    using constructRawURL_total listing_parts by blast
next
  assume a: "getGiteaDirectoryListing w repoURL sitePath branch = Some (Inr items)
    \<and> (\<forall>f\<in>set (filter isBMNodeFile items).
          constructRawURL repoURL (sitePath @ ''/'' @ Name f) branch = Some (locator f))"
  then have loc: "\<forall>f\<in>set (filter isBMNodeFile items).
      constructRawURL repoURL (sitePath @ ''/'' @ Name f) branch = Some (locator f)"
    by blast
  show "processSiteDirectory w repoURL sitePath branch
        = Some (record_of sitePath (filter isBMNodeFile items)
            (map (\<lambda>f. outcome_of (FindStringSubmatch hostnameRegex) (Name f)
                    (fetchURL w (locator f)))
               (filter isBMNodeFile items)))"
    using a processFiles_outcomes [OF loc, of w
        "\<lparr>SitePath = sitePath, Hostnames = [], BMNodeFiles = [], Errors = []\<rparr>"]
    by (simp add: processSiteDirectory_def record_of_def)
next
  assume a: "getGiteaDirectoryListing_ts tw repoUrl tsPath tsBranch = Some tsItems
    \<and> (\<forall>f\<in>set (filter isBMNodeFile_ts tsItems).
          fetchUrl tw (if DownloadURL f \<noteq> [] then DownloadURL f
                       else constructRawUrl repoUrl (tsPath @ ''/'' @ Name f) tsBranch)
          = Some (fetched f))"
  then have f: "\<forall>f\<in>set (filter isBMNodeFile_ts tsItems).
      fetchUrl tw (file_url_ts repoUrl tsPath tsBranch f) = Some (fetched f)"
    by (simp add: file_url_ts_def)
  show "processSiteDirectory_ts tw repoUrl tsPath tsBranch
        = Some (record_of tsPath (filter isBMNodeFile_ts tsItems)
            (map (\<lambda>f. outcome_of extractHostnameFromContent (Name f) (fetched f))
               (filter isBMNodeFile_ts tsItems)))"
    using a processFiles_ts_outcomes [OF f, of
        "\<lparr>SitePath = tsPath, Hostnames = [], BMNodeFiles = [], Errors = []\<rparr>"]
    by (simp add: processSiteDirectory_ts_def record_of_def)
qed

theorem locator_of_matched_file_witness:
  "constructRawURL ''h/o/r'' (''root'' @ ''/'' @ ''bm-node-2.yaml'') ''b''
     = Some ''h/o/r/raw/branch/b/root/bm-node-2.yaml''
   \<and> processSiteDirectory go_demo ''h/o/r'' ''root'' ''b''
     = Some (record_of ''root'' (take 3 demo_sub)
         [Hostname ''n2'', Failure ''No hostname annotation found in bm-node-3.yaml'',
          Failure ''Error processing bm-node-4.yaml: HTTP 404: 404 Not Found for h/o/r/raw/branch/b/root/bm-node-4.yaml''])
   \<and> processSiteDirectory_ts ts_demo ''h/o/r'' ''root'' ''b''
     = Some (record_of ''root'' (take 3 demo_sub)
         [Hostname ''d2'', Failure ''No hostname annotation found in bm-node-3.yaml'',
          Failure ''Error processing bm-node-4.yaml: HTTP 404: Not Found for h/o/r/raw/branch/b/root/bm-node-4.yaml''])"
proof -
  let ?locator = "\<lambda>f. ''h/o/r/raw/branch/b/root/'' @ Name f"
  let ?url = "\<lambda>f. if DownloadURL f \<noteq> [] then DownloadURL f
      else constructRawUrl ''h/o/r'' (''root'' @ ''/'' @ Name f) ''b''"
  let ?fetched = "\<lambda>f. case demo_page (?url f) of Some body \<Rightarrow> Inr body
      | None \<Rightarrow> Inl (''HTTP 404: Not Found for '' @ ?url f)"
  note T = locator_of_matched_file [where w = go_demo and repoURL = "''h/o/r''"
      and sitePath = "''root''" and branch = "''b''" and items = demo_sub
      and fileName = "''bm-node-2.yaml''" and locator = ?locator
      and tw = ts_demo and repoUrl = "''h/o/r''" and tsPath = "''root''"
      and tsBranch = "''b''" and tsItems = demo_sub and fetched = ?fetched]
  have loc: "\<forall>f\<in>set (filter isBMNodeFile demo_sub).
      constructRawURL ''h/o/r'' (''root'' @ ''/'' @ Name f) ''b'' = Some (?locator f)"
    by (simp add: url_defs)
  have fet: "\<forall>f\<in>set (filter isBMNodeFile_ts demo_sub). fetchUrl ts_demo (?url f) = Some (?fetched f)"
    by (simp add: ts_demo_page)
  have ex: "\<exists>u. constructRawURL ''h/o/r'' (''root'' @ ''/'' @ ''bm-node-2.yaml'') ''b'' = Some u"
    by (rule T [THEN conjunct1, THEN mp]) (rule go_demo_listing_sub)
  have u: "constructRawURL ''h/o/r'' (''root'' @ ''/'' @ ''bm-node-2.yaml'') ''b''
     = Some ''h/o/r/raw/branch/b/root/bm-node-2.yaml''"
    using ex by (simp add: url_defs)
  have g: "processSiteDirectory go_demo ''h/o/r'' ''root'' ''b''
        = Some (record_of ''root'' (filter isBMNodeFile demo_sub)
            (map (\<lambda>f. outcome_of (FindStringSubmatch hostnameRegex) (Name f)
                    (fetchURL go_demo (?locator f)))
               (filter isBMNodeFile demo_sub)))"
    by (rule T [THEN conjunct2, THEN conjunct1, THEN mp]) (intro conjI go_demo_listing_sub loc)
  have t: "processSiteDirectory_ts ts_demo ''h/o/r'' ''root'' ''b''
        = Some (record_of ''root'' (filter isBMNodeFile_ts demo_sub)
            (map (\<lambda>f. outcome_of extractHostnameFromContent (Name f) (?fetched f))
               (filter isBMNodeFile_ts demo_sub)))"
    by (rule T [THEN conjunct2, THEN conjunct2, THEN mp]) (intro conjI ts_demo_listing_sub fet)
  have go: "map (\<lambda>f. outcome_of (FindStringSubmatch hostnameRegex) (Name f)
                    (fetchURL go_demo (?locator f))) (take 3 demo_sub)
      = [Hostname ''n2'', Failure ''No hostname annotation found in bm-node-3.yaml'',
          Failure ''Error processing bm-node-4.yaml: HTTP 404: 404 Not Found for h/o/r/raw/branch/b/root/bm-node-4.yaml'']"
    by (simp add: demo_sub_def outcome_of_def go_demo_page demo_page_def re_defs)
  have ts: "map (\<lambda>f. outcome_of extractHostnameFromContent (Name f) (?fetched f))
        (take 3 demo_sub)
      = [Hostname ''d2'', Failure ''No hostname annotation found in bm-node-3.yaml'',
          Failure ''Error processing bm-node-4.yaml: HTTP 404: Not Found for h/o/r/raw/branch/b/root/bm-node-4.yaml'']"
    by (simp add: demo_sub_def outcome_of_def url_defs demo_page_def re_defs)
  show ?thesis
    using u g t unfolding demo_sub_matched go ts by (intro conjI)
qed

section \<open>The coordinator's invariant\<close>

lemma tidy_owed: "tidy r \<Longrightarrow> owed r = (if r = [] then 0 else 1)"
  by (induction r rule: tidy.induct) auto

lemma wellformed_owed: "wellformed r \<Longrightarrow> 0 \<le> owed r \<and> (owed r = 0 \<longrightarrow> r = [])"
  by (auto simp: wellformed_def tidy_owed split: if_splits)

lemma tidy_tail: "tidy (a # r) \<Longrightarrow> wellformed r"
  by (erule tidy.elims(2); simp add: wellformed_def)

lemma wellformed_tail: "wellformed (a # r) \<Longrightarrow> wellformed r"
proof -
  assume "wellformed (a # r)"
  then consider "tidy (a # r)" | "tidy r"
    unfolding wellformed_def by auto
  then show ?thesis
  proof cases
    case 1
    then show ?thesis by (rule tidy_tail)
  next
    case 2
    then show ?thesis by (simp add: wellformed_def)
  qed
qed

lemma wellformed_head:
  "wellformed (a # r) \<Longrightarrow>
   (\<exists>i. a = Send i) \<or> a = WgAdd \<or> (\<exists>d. a = Go d) \<or> a = WgDone \<or> a = Panic"
  by (cases a) (auto simp: wellformed_def)

lemma tidy_spawns:
  "tidy (concat (map (\<lambda>x. [WgAdd, Go (g x)]) xs) @ [WgDone])"
  by (induction xs) auto

lemma tidy_discover: "tidy (discoverSitesRecursively w repoURL p branch)"
  using tidy_spawns
  by (auto simp: discoverSitesRecursively_def Let_def split: option.splits sum.splits)

lemma discover_nonempty: "discoverSitesRecursively w repoURL p branch \<noteq> []"
  by (auto simp: discoverSitesRecursively_def Let_def split: option.splits sum.splits)

lemma owed_discover: "owed (discoverSitesRecursively w repoURL p branch) = 1"
  using tidy_owed [OF tidy_discover] discover_nonempty by simp

lemma coordinated_initial: "coordinated initial"
  by (simp add: coordinated_def initial_def producer_program_def
      extractHostnamesFromGiteaRepository_def)


lemma sum_owed_zero:
  assumes "\<forall>b\<in>set bs. wellformed (snd b)"
    and "sum_list (map (\<lambda>b. owed (snd b)) bs) = 0"
  shows "\<forall>b\<in>set bs. snd b = []"
proof -
  have nonneg: "\<And>x. x \<in> set (map (\<lambda>b. owed (snd b)) bs) \<Longrightarrow> 0 \<le> x"
    using assms(1) wellformed_owed by auto
  have "\<forall>x\<in>set (map (\<lambda>b. owed (snd b)) bs). x = 0"
    using sum_list_nonneg_eq_0_iff [OF nonneg] assms(2) by blast
  then show ?thesis using assms(1) wellformed_owed by auto
qed

lemma coordinated_step:
  assumes "coordinated s" and "step w repoURL branch s s'"
  shows "coordinated s'"
  using assms(2)
proof (cases rule: step.cases)
  case (producer_add r)
  then show ?thesis using assms(1)
    by (auto simp: coordinated_def producer_program_def extractHostnamesFromGiteaRepository_def)
next
  case (producer_go p r)
  then show ?thesis using assms(1)
    by (auto simp: coordinated_def producer_program_def extractHostnamesFromGiteaRepository_def
        owed_discover tidy_discover wellformed_def)
next
  case (producer_wait r)
  have wf: "\<forall>b\<in>set (branches s). wellformed (snd b)"
    using assms(1) by (simp add: coordinated_def)
  have "counter s = owed (producer s) + sum_list (map (\<lambda>b. owed (snd b)) (branches s))"
    using assms(1) by (simp add: coordinated_def)
  moreover have "owed (producer s) = 0"
    using producer_wait assms(1)
    by (auto simp: coordinated_def producer_program_def extractHostnamesFromGiteaRepository_def)
  ultimately have "sum_list (map (\<lambda>b. owed (snd b)) (branches s)) = 0"
    using producer_wait by simp
  then have "\<forall>b\<in>set (branches s). snd b = []"
    by (rule sum_owed_zero [OF wf])
  then show ?thesis using producer_wait assms(1)
    by (fastforce simp: coordinated_def producer_program_def
        extractHostnamesFromGiteaRepository_def)
next
  case (producer_close r)
  then show ?thesis using assms(1)
    by (auto simp: coordinated_def producer_program_def extractHostnamesFromGiteaRepository_def)
next
  case (producer_close_closed r)
  then show ?thesis using assms(1) by (auto simp: coordinated_def)
next
  case (branch_send xs p siteInfo r ys)
  then show ?thesis using assms(1) wellformed_tail [of "Send siteInfo" r]
    by (auto simp: coordinated_def)
next
  case (branch_send_closed xs p siteInfo r ys)
  then show ?thesis using assms(1) by (auto simp: coordinated_def)
next
  case (branch_add xs p r ys)
  then show ?thesis using assms(1) wellformed_tail [of WgAdd r]
    by (auto simp: coordinated_def)
next
  case (branch_go xs p d r ys)
  then show ?thesis using assms(1) wellformed_tail [of "Go d" r]
    by (auto simp: coordinated_def owed_discover tidy_discover wellformed_def)
next
  case (branch_done xs p r ys)
  then show ?thesis using assms(1) wellformed_tail [of WgDone r]
    by (auto simp: coordinated_def)
next
  case (branch_done_negative xs p r ys)
  then show ?thesis using assms(1) by (auto simp: coordinated_def)
next
  case (branch_panic xs p r ys)
  then show ?thesis using assms(1) by (auto simp: coordinated_def)
next
  case consumer_finish
  then show ?thesis using assms(1) by (auto simp: coordinated_def)
qed

lemma reachable_coordinated: "reachable w repoURL branch s \<Longrightarrow> coordinated s"
  by (induction rule: reachable.induct) (auto intro: coordinated_initial coordinated_step)


lemma sum_owed_done:
  "\<forall>b\<in>set bs. snd b = [] \<Longrightarrow> sum_list (map (\<lambda>b. owed (snd b)) bs) = 0"
  by (induction bs) auto

lemma outstanding_split:
  assumes "b \<in> set bs" and "snd b \<noteq> []"
  shows "\<exists>xs p a r ys. bs = xs @ (p, a # r) # ys"
proof -
  obtain xs ys where "bs = xs @ b # ys" using assms(1) by (meson split_list)
  moreover obtain p a r where "b = (p, a # r)" using assms(2) by (cases b; cases "snd b") auto
  ultimately show ?thesis by blast
qed

lemma branch_can_step:
  assumes "coordinated s" and "\<not> crashed s" and "branches s = xs @ (p, a # r) # ys"
  shows "\<exists>s'. step w repoURL branch s s'"
proof -
  have "wellformed (a # r)" using assms(1,3) by (simp add: coordinated_def)
  then consider i where "a = Send i" | "a = WgAdd" | d where "a = Go d" | "a = WgDone" | "a = Panic"
    using wellformed_head by blast
  then show ?thesis
  proof cases
    case 1
    then show ?thesis
      using assms(2,3) step.branch_send [of s xs p i r ys] step.branch_send_closed [of s xs p i r ys]
      by (cases "closed s") blast+
  next
    case 2
    then show ?thesis using assms(2,3) step.branch_add [of s xs p r ys] by blast
  next
    case 3
    then show ?thesis using assms(2,3) step.branch_go [of s xs p d r ys] by blast
  next
    case 4
    then show ?thesis
      using assms(2,3) step.branch_done [of s xs p r ys] step.branch_done_negative [of s xs p r ys]
      by (cases "0 < counter s") (blast, force)
  next
    case 5
    then show ?thesis using assms(2,3) step.branch_panic [of s xs p r ys] by blast
  qed
qed

lemma producer_can_step:
  assumes "coordinated s" and "\<not> crashed s" and "\<not> finished s"
    and "\<forall>b\<in>set (branches s). snd b = []"
  shows "\<exists>s'. step w repoURL branch s s'"
proof -
  have zero: "sum_list (map (\<lambda>b. owed (snd b)) (branches s)) = 0"
    using assms(4) by (rule sum_owed_done)
  have c: "counter s = owed (producer s) + sum_list (map (\<lambda>b. owed (snd b)) (branches s))"
    and cl: "closed s \<longleftrightarrow> producer s = []"
    using assms(1) by (simp_all add: coordinated_def)
  consider "producer s = producer_program" | "producer s = [Go [], WgWait, Close]"
    | "producer s = [WgWait, Close]" | "producer s = [Close]" | "producer s = []"
    using assms(1) unfolding coordinated_def by blast
  then show ?thesis
  proof cases
    case 1
    then show ?thesis
      using assms(2) step.producer_add [of s "[Go [], WgWait, Close]"]
      by (auto simp: producer_program_def extractHostnamesFromGiteaRepository_def)
  next
    case 2
    then show ?thesis using assms(2) step.producer_go [of s "[]" "[WgWait, Close]"] by blast
  next
    case 3
    then have "counter s = 0" using c zero by simp
    then show ?thesis using 3 assms(2) step.producer_wait [of s "[Close]"] by blast
  next
    case 4
    then show ?thesis using cl assms(2) step.producer_close [of s "[]"] by auto
  next
    case 5
    then show ?thesis using cl assms(2,3) step.consumer_finish [of s] by auto
  qed
qed

lemma only_wait_can_step:
  assumes "producer s = [WgWait, Close]" and "\<forall>b\<in>set (branches s). snd b = []"
    and "coordinated s" and "step w repoURL branch s s'"
  shows "s' = s\<lparr>producer := [Close]\<rparr>"
  using assms(4)
proof (cases rule: step.cases)
  case (producer_wait r)
  then show ?thesis using assms(1) by simp
next
  case consumer_finish
  then show ?thesis using assms(1,3) by (simp add: coordinated_def)
qed (use assms(1,2) in \<open>auto\<close>)

text \<open>
  Claim C2.  In every reachable state of the Go program: the channel is closed only when
  no branch is outstanding, and the counter is positive while one is; once the root has
  been started and no branch is outstanding, the only step the program can take is the
  return of \<open>wg.Wait()\<close>, after which the producer closes the channel and the consumer
  sees the end of the stream, with the records it had received; and as long as the
  consumer has not seen the end of the stream (and nothing has panicked) some goroutine
  can step, so the close is never left out.
\<close>

theorem close_after_all_branches:
  "reachable w repoURL branch s \<longrightarrow>
     (closed s \<longrightarrow> (\<forall>b\<in>set (branches s). snd b = []))
     \<and> ((\<exists>b\<in>set (branches s). snd b \<noteq> []) \<longrightarrow> 0 < counter s)
     \<and> (producer s = [WgWait, Close] \<and> (\<forall>b\<in>set (branches s). snd b = []) \<and> \<not> crashed s \<longrightarrow>
          (\<forall>s'. step w repoURL branch s s' \<longrightarrow> s' = s\<lparr>producer := [Close]\<rparr>)
          \<and> (\<exists>s1 s2 s3. step w repoURL branch s s1 \<and> step w repoURL branch s1 s2
                \<and> step w repoURL branch s2 s3 \<and> closed s2 \<and> finished s3
                \<and> received s3 = received s))
     \<and> (\<not> crashed s \<and> \<not> finished s \<longrightarrow> (\<exists>s'. step w repoURL branch s s'))"
proof
  assume r: "reachable w repoURL branch s"
  then have inv: "coordinated s" by (rule reachable_coordinated)
  have safe: "closed s \<longrightarrow> (\<forall>b\<in>set (branches s). snd b = [])"
    using inv by (auto simp: coordinated_def)
  have count: "(\<exists>b\<in>set (branches s). snd b \<noteq> []) \<longrightarrow> 0 < counter s"
  proof
    assume "\<exists>b\<in>set (branches s). snd b \<noteq> []"
    then obtain b where b: "b \<in> set (branches s)" "snd b \<noteq> []" by blast
    have wf: "\<forall>b\<in>set (branches s). wellformed (snd b)"
      using inv by (simp add: coordinated_def)
    have nonneg: "\<And>x. x \<in> set (map (\<lambda>b. owed (snd b)) (branches s)) \<Longrightarrow> 0 \<le> x"
      using wf wellformed_owed by auto
    have "sum_list (map (\<lambda>b. owed (snd b)) (branches s)) \<noteq> 0"
      using sum_owed_zero [OF wf] b by blast
    moreover have "0 \<le> sum_list (map (\<lambda>b. owed (snd b)) (branches s))"
      using nonneg by (rule sum_list_nonneg)
    moreover have "0 \<le> owed (producer s)"
      using inv
      by (auto simp: coordinated_def producer_program_def extractHostnamesFromGiteaRepository_def)
    moreover have "counter s = owed (producer s)
        + sum_list (map (\<lambda>b. owed (snd b)) (branches s))"
      using inv by (simp add: coordinated_def)
    ultimately show "0 < counter s" by linarith
  qed
  have live: "\<not> crashed s \<and> \<not> finished s \<longrightarrow> (\<exists>s'. step w repoURL branch s s')"
  proof
    assume a: "\<not> crashed s \<and> \<not> finished s"
    show "\<exists>s'. step w repoURL branch s s'"
    proof (cases "\<forall>b\<in>set (branches s). snd b = []")
      case True
      then show ?thesis using producer_can_step [OF inv] a by blast
    next
      case False
      then obtain xs p a' r' ys where "branches s = xs @ (p, a' # r') # ys"
        using outstanding_split by blast
      then show ?thesis using branch_can_step [OF inv] a by blast
    qed
  qed
  have finish: "producer s = [WgWait, Close] \<and> (\<forall>b\<in>set (branches s). snd b = [])
      \<and> \<not> crashed s \<longrightarrow>
          (\<forall>s'. step w repoURL branch s s' \<longrightarrow> s' = s\<lparr>producer := [Close]\<rparr>)
          \<and> (\<exists>s1 s2 s3. step w repoURL branch s s1 \<and> step w repoURL branch s1 s2
                \<and> step w repoURL branch s2 s3 \<and> closed s2 \<and> finished s3
                \<and> received s3 = received s)"
  proof (intro impI conjI allI)
    fix s'
    assume a: "producer s = [WgWait, Close] \<and> (\<forall>b\<in>set (branches s). snd b = [])
      \<and> \<not> crashed s"
      and "step w repoURL branch s s'"
    then show "s' = s\<lparr>producer := [Close]\<rparr>"
      using only_wait_can_step [OF _ _ inv] by blast
  next
    assume a: "producer s = [WgWait, Close] \<and> (\<forall>b\<in>set (branches s). snd b = [])
      \<and> \<not> crashed s"
    have zero: "sum_list (map (\<lambda>b. owed (snd b)) (branches s)) = 0"
      using a by (simp add: sum_owed_done)
    have c0: "counter s = 0" using inv a zero by (simp add: coordinated_def)
    have ncl: "\<not> closed s" "\<not> finished s" using inv a by (auto simp: coordinated_def)
    let ?s1 = "s\<lparr>producer := [Close]\<rparr>"
    let ?s2 = "?s1\<lparr>producer := [], closed := True\<rparr>"
    let ?s3 = "?s2\<lparr>finished := True\<rparr>"
    have 1: "step w repoURL branch s ?s1"
      using step.producer_wait [of s "[Close]"] a c0 by simp
    have 2: "step w repoURL branch ?s1 ?s2"
      using step.producer_close [of ?s1 "[]"] a ncl by simp
    have 3: "step w repoURL branch ?s2 ?s3"
      using step.consumer_finish [of ?s2] a ncl by simp
    have "closed ?s2 \<and> finished ?s3 \<and> received ?s3 = received s" by simp
    then show "\<exists>s1 s2 s3. step w repoURL branch s s1 \<and> step w repoURL branch s1 s2
                \<and> step w repoURL branch s2 s3 \<and> closed s2 \<and> finished s3
                \<and> received s3 = received s"
      using 1 2 3 by blast
  qed
  show "(closed s \<longrightarrow> (\<forall>b\<in>set (branches s). snd b = []))
     \<and> ((\<exists>b\<in>set (branches s). snd b \<noteq> []) \<longrightarrow> 0 < counter s)
     \<and> (producer s = [WgWait, Close] \<and> (\<forall>b\<in>set (branches s). snd b = []) \<and> \<not> crashed s \<longrightarrow>
          (\<forall>s'. step w repoURL branch s s' \<longrightarrow> s' = s\<lparr>producer := [Close]\<rparr>)
          \<and> (\<exists>s1 s2 s3. step w repoURL branch s s1 \<and> step w repoURL branch s1 s2
                \<and> step w repoURL branch s2 s3 \<and> closed s2 \<and> finished s3
                \<and> received s3 = received s))
     \<and> (\<not> crashed s \<and> \<not> finished s \<longrightarrow> (\<exists>s'. step w repoURL branch s s'))"
    using safe count finish live by (intro conjI)
qed


section \<open>A run whose root listing fails\<close>

lemma discover_failed_listing:
  "getGiteaDirectoryListing w repoURL p branch = Some (Inl err) \<Longrightarrow>
   discoverSitesRecursively w repoURL p branch = [WgDone]"
  by (simp add: discoverSitesRecursively_def)

lemma failed_root_initial: "failed_root_run 0 = initial"
  by (simp add: failed_root_run_def snapshot_def initial_def producer_program_def
      extractHostnamesFromGiteaRepository_def)

lemma singleton_split: "[x] = xs @ y # ys \<longleftrightarrow> xs = [] \<and> ys = [] \<and> x = y"
  by (cases xs) auto

lemma failed_root_step:
  assumes d: "discoverSitesRecursively w repoURL [] branch = [WgDone]"
    and n: "n \<le> 6" and st: "step w repoURL branch (failed_root_run n) s'"
  shows "n < 6 \<and> s' = failed_root_run (Suc n)"
proof -
  consider "n = 0" | "n = 1" | "n = 2" | "n = 3" | "n = 4" | "n = 5" | "n = 6"
    using n by linarith
  then show ?thesis
  proof cases
    case 1
    show ?thesis using st unfolding 1
      by (cases rule: step.cases) (auto simp: failed_root_run_def snapshot_def)
  next
    case 2
    show ?thesis using st d unfolding 2
      by (cases rule: step.cases) (auto simp: failed_root_run_def snapshot_def)
  next
    case 3
    show ?thesis using st unfolding 3
      by (cases rule: step.cases)
         (auto simp: failed_root_run_def snapshot_def singleton_split)
  next
    case 4
    show ?thesis using st unfolding 4
      by (cases rule: step.cases)
         (auto simp: failed_root_run_def snapshot_def singleton_split)
  next
    case 5
    show ?thesis using st unfolding 5
      by (cases rule: step.cases)
         (auto simp: failed_root_run_def snapshot_def singleton_split)
  next
    case 6
    show ?thesis using st unfolding 6
      by (cases rule: step.cases)
         (auto simp: failed_root_run_def snapshot_def singleton_split)
  next
    case 7
    show ?thesis using st unfolding 7
      by (cases rule: step.cases)
         (auto simp: failed_root_run_def snapshot_def singleton_split)
  qed
qed

lemma failed_root_run_only:
  assumes d: "discoverSitesRecursively w repoURL [] branch = [WgDone]"
  shows "run w repoURL branch n s \<Longrightarrow> n \<le> 6 \<and> s = failed_root_run n"
proof (induction rule: run.induct)
  case run_initial
  show ?case by (simp add: failed_root_initial)
next
  case (run_step n s s')
  then show ?case using failed_root_step [OF d, of n s'] by auto
qed

lemma failed_root_can_step:
  assumes d: "discoverSitesRecursively w repoURL [] branch = [WgDone]" and n: "n < 6"
  shows "step w repoURL branch (failed_root_run n) (failed_root_run (Suc n))"
proof -
  consider "n = 0" | "n = 1" | "n = 2" | "n = 3" | "n = 4" | "n = 5"
    using n by linarith
  then show ?thesis
  proof cases
    case 1
    show ?thesis
      using step.producer_add [of "failed_root_run 0" "[Go [], WgWait, Close]" w repoURL branch]
      by (simp add: 1 failed_root_run_def snapshot_def)
  next
    case 2
    show ?thesis
      using step.producer_go [of "failed_root_run 1" "[]" "[WgWait, Close]" w repoURL branch] d
      by (simp add: 2 failed_root_run_def snapshot_def)
  next
    case 3
    show ?thesis
      using step.branch_done [of "failed_root_run 2" "[]" "[]" "[]" "[]" w repoURL branch]
      by (simp add: 3 failed_root_run_def snapshot_def)
  next
    case 4
    show ?thesis
      using step.producer_wait [of "failed_root_run 3" "[Close]" w repoURL branch]
      by (simp add: 4 failed_root_run_def snapshot_def)
  next
    case 5
    show ?thesis
      using step.producer_close [of "failed_root_run 4" "[]" w repoURL branch]
      by (simp add: 5 failed_root_run_def snapshot_def)
  next
    case 6
    show ?thesis
      using step.consumer_finish [of "failed_root_run 5" w repoURL branch]
      by (simp add: 6 failed_root_run_def snapshot_def)
  qed
qed

lemma failed_root_run_exists:
  assumes d: "discoverSitesRecursively w repoURL [] branch = [WgDone]"
  shows "n \<le> 6 \<Longrightarrow> run w repoURL branch n (failed_root_run n)"
proof (induction n)
  case 0
  show ?case using run.run_initial [of w repoURL branch] by (simp add: failed_root_initial)
next
  case (Suc n)
  then show ?case using failed_root_can_step [OF d, of n] run.run_step by auto
qed

lemma run_reachable: "run w repoURL branch n s \<Longrightarrow> reachable w repoURL branch s"
  by (induction rule: run.induct) (auto intro: reachable.intros)

text \<open>
  Claim C7.  When the listing of the root fails, every run of the Go program has at most
  six steps, receives no record and never panics; before its sixth step it can always
  go on, and after the sixth the channel is closed and the consumer has seen the end of
  the stream.  Such a run exists.
\<close>

theorem failed_root_listing_terminates:
  "getGiteaDirectoryListing w repoURL [] branch = Some (Inl err) \<longrightarrow>
     (\<forall>n s. run w repoURL branch n s \<longrightarrow>
        n \<le> 6 \<and> received s = [] \<and> \<not> crashed s
        \<and> (n < 6 \<longrightarrow> (\<exists>s'. step w repoURL branch s s'))
        \<and> (n = 6 \<longrightarrow> closed s \<and> finished s))
     \<and> (\<exists>s. run w repoURL branch 6 s)"
proof
  assume "getGiteaDirectoryListing w repoURL [] branch = Some (Inl err)"
  then have d: "discoverSitesRecursively w repoURL [] branch = [WgDone]"
    by (rule discover_failed_listing)
  have "n \<le> 6 \<and> received s = [] \<and> \<not> crashed s
        \<and> (n < 6 \<longrightarrow> (\<exists>s'. step w repoURL branch s s'))
        \<and> (n = 6 \<longrightarrow> closed s \<and> finished s)"
    if r: "run w repoURL branch n s" for n s
  proof -
    have s: "n \<le> 6" "s = failed_root_run n" using failed_root_run_only [OF d r] by auto
    have "received s = [] \<and> \<not> crashed s" unfolding s
      by (simp add: failed_root_run_def snapshot_def)
    moreover have "n < 6 \<longrightarrow> (\<exists>s'. step w repoURL branch s s')"
      unfolding s using failed_root_can_step [OF d] by blast
    moreover have "n = 6 \<longrightarrow> closed s \<and> finished s" unfolding s
      by (simp add: failed_root_run_def snapshot_def)
    ultimately show ?thesis using s(1) by blast
  qed
  moreover have "\<exists>s. run w repoURL branch 6 s"
    using failed_root_run_exists [OF d, of 6] by blast
  ultimately show "(\<forall>n s. run w repoURL branch n s \<longrightarrow>
        n \<le> 6 \<and> received s = [] \<and> \<not> crashed s
        \<and> (n < 6 \<longrightarrow> (\<exists>s'. step w repoURL branch s s'))
        \<and> (n = 6 \<longrightarrow> closed s \<and> finished s))
     \<and> (\<exists>s. run w repoURL branch 6 s)"
    by blast
qed

lemma go_down_root:
  "getGiteaDirectoryListing go_down ''h/o/r'' [] ''b'' = Some (Inl ''connection refused'')"
  by (simp add: getGiteaDirectoryListing_def url_defs fetchURL_def go_down_def)

theorem failed_root_listing_terminates_witness:
  "\<exists>s. run go_down ''h/o/r'' ''b'' 6 s \<and> received s = [] \<and> closed s \<and> finished s
     \<and> \<not> crashed s"
  using failed_root_listing_terminates [of go_down "''h/o/r''" "''b''" "''connection refused''"]
    go_down_root
  by blast

section \<open>A run over the deeper tree\<close>

lemma go_deep_page: "fetchURL go_deep url =
   (case deep_page url of Some body \<Rightarrow> Inr body
    | None \<Rightarrow> Inl (''HTTP 404: 404 Not Found for '' @ url))"
  by (simp add: fetchURL_def go_deep_def decimal.simps digit_def split: option.splits)

lemma go_deep_listing:
  "getGiteaDirectoryListing go_deep ''h/o/r'' [] ''b''
     = Some (Inr [\<lparr>Name = ''a'', Type = ''dir'', DownloadURL = []\<rparr>,
                  \<lparr>Name = ''c'', Type = ''dir'', DownloadURL = []\<rparr>])"
  "getGiteaDirectoryListing go_deep ''h/o/r'' ''a'' ''b''
     = Some (Inr [\<lparr>Name = ''b'', Type = ''dir'', DownloadURL = []\<rparr>])"
  "getGiteaDirectoryListing go_deep ''h/o/r'' ''a/b'' ''b''
     = Some (Inr [\<lparr>Name = ''bm-node-9.yaml'', Type = ''file'', DownloadURL = []\<rparr>])"
  "getGiteaDirectoryListing go_deep ''h/o/r'' ''c'' ''b'' = Some (Inr [])"
  by (simp_all add: getGiteaDirectoryListing_def url_defs go_deep_page deep_page_def)
     (simp_all add: go_deep_def deep_listing_def)

lemma go_deep_record:
  "processSiteDirectory go_deep ''h/o/r'' ''a/b'' ''b'' = Some deep_record"
  unfolding processSiteDirectory_def go_deep_listing
  by (simp add: isBMNodeFile_def url_defs go_deep_page deep_page_def re_defs deep_record_def)

lemma go_deep_discover:
  "discoverSitesRecursively go_deep ''h/o/r'' [] ''b''
     = [WgAdd, Go ''a'', WgAdd, Go ''c'', WgDone]"
  "discoverSitesRecursively go_deep ''h/o/r'' ''a'' ''b'' = [WgAdd, Go ''a/b'', WgDone]"
  "discoverSitesRecursively go_deep ''h/o/r'' ''a/b'' ''b'' = [Send deep_record, WgDone]"
  "discoverSitesRecursively go_deep ''h/o/r'' ''c'' ''b'' = [WgDone]"
  unfolding discoverSitesRecursively_def go_deep_listing
  by (simp_all add: isBMNodeFile_def re_defs go_deep_record)

lemma deep_step_0: "step go_deep ''h/o/r'' ''b'' (deep_run 0) (deep_run (Suc 0))"
  using step.producer_add [of "deep_run 0" "[Go [], WgWait, Close]"
      go_deep "''h/o/r''" "''b''"]
  by (simp add: deep_run_def snapshot_def)

lemma deep_step_1: "step go_deep ''h/o/r'' ''b'' (deep_run 1) (deep_run (Suc 1))"
  using step.producer_go [of "deep_run 1" "[]" "[WgWait, Close]"
      go_deep "''h/o/r''" "''b''"]
  by (simp add: deep_run_def snapshot_def go_deep_discover)

lemma deep_step_2: "step go_deep ''h/o/r'' ''b'' (deep_run 2) (deep_run (Suc 2))"
  using step.branch_add [of "deep_run 2" "[]" "[]" "[Go ''a'', WgAdd, Go ''c'', WgDone]" "[]"
      go_deep "''h/o/r''" "''b''"]
  by (simp add: deep_run_def snapshot_def)

lemma deep_step_3: "step go_deep ''h/o/r'' ''b'' (deep_run 3) (deep_run (Suc 3))"
  using step.branch_go [of "deep_run 3" "[]" "[]" "''a''" "[WgAdd, Go ''c'', WgDone]" "[]"
      go_deep "''h/o/r''" "''b''"]
  by (simp add: deep_run_def snapshot_def go_deep_discover)

lemma deep_step_4: "step go_deep ''h/o/r'' ''b'' (deep_run 4) (deep_run (Suc 4))"
  using step.branch_add [of "deep_run 4" "[([], [WgAdd, Go ''c'', WgDone])]" "''a''" "[Go ''a/b'', WgDone]" "[]"
      go_deep "''h/o/r''" "''b''"]
  by (simp add: deep_run_def snapshot_def)

lemma deep_step_5: "step go_deep ''h/o/r'' ''b'' (deep_run 5) (deep_run (Suc 5))"
  using step.branch_add [of "deep_run 5" "[]" "[]" "[Go ''c'', WgDone]" "[(''a'', [Go ''a/b'', WgDone])]"
      go_deep "''h/o/r''" "''b''"]
  by (simp add: deep_run_def snapshot_def)

lemma deep_step_6: "step go_deep ''h/o/r'' ''b'' (deep_run 6) (deep_run (Suc 6))"
  using step.branch_go [of "deep_run 6" "[([], [Go ''c'', WgDone])]" "''a''" "''a/b''" "[WgDone]" "[]"
      go_deep "''h/o/r''" "''b''"]
  by (simp add: deep_run_def snapshot_def go_deep_discover)

lemma deep_step_7: "step go_deep ''h/o/r'' ''b'' (deep_run 7) (deep_run (Suc 7))"
  using step.branch_go [of "deep_run 7" "[]" "[]" "''c''" "[WgDone]"
      "[(''a'', [WgDone]), (''a/b'', [Send deep_record, WgDone])]"
      go_deep "''h/o/r''" "''b''"]
  by (simp add: deep_run_def snapshot_def go_deep_discover)

lemma deep_step_8: "step go_deep ''h/o/r'' ''b'' (deep_run 8) (deep_run (Suc 8))"
  using step.branch_done [of "deep_run 8" "[([], [WgDone])]" "''a''" "[]"
      "[(''a/b'', [Send deep_record, WgDone]), (''c'', [WgDone])]"
      go_deep "''h/o/r''" "''b''"]
  by (simp add: deep_run_def snapshot_def)

lemma deep_step_9: "step go_deep ''h/o/r'' ''b'' (deep_run 9) (deep_run (Suc 9))"
  using step.branch_done [of "deep_run 9" "[]" "[]" "[]"
      "[(''a'', []), (''a/b'', [Send deep_record, WgDone]), (''c'', [WgDone])]"
      go_deep "''h/o/r''" "''b''"]
  by (simp add: deep_run_def snapshot_def)

lemma deep_step_10: "step go_deep ''h/o/r'' ''b'' (deep_run 10) (deep_run (Suc 10))"
  using step.branch_done [of "deep_run 10" "[([], []), (''a'', []), (''a/b'', [Send deep_record, WgDone])]" "''c''"
      "[]" "[]"
      go_deep "''h/o/r''" "''b''"]
  by (simp add: deep_run_def snapshot_def)

lemma deep_step_11: "step go_deep ''h/o/r'' ''b'' (deep_run 11) (deep_run (Suc 11))"
  using step.branch_send [of "deep_run 11" "[([], []), (''a'', [])]" "''a/b''" deep_record "[WgDone]"
      "[(''c'', [])]"
      go_deep "''h/o/r''" "''b''"]
  by (simp add: deep_run_def snapshot_def)

lemma deep_step_12: "step go_deep ''h/o/r'' ''b'' (deep_run 12) (deep_run (Suc 12))"
  using step.branch_done [of "deep_run 12" "[([], []), (''a'', [])]" "''a/b''" "[]" "[(''c'', [])]"
      go_deep "''h/o/r''" "''b''"]
  by (simp add: deep_run_def snapshot_def)

lemma deep_step_13: "step go_deep ''h/o/r'' ''b'' (deep_run 13) (deep_run (Suc 13))"
  using step.producer_wait [of "deep_run 13" "[Close]"
      go_deep "''h/o/r''" "''b''"]
  by (simp add: deep_run_def snapshot_def)

lemma deep_step_14: "step go_deep ''h/o/r'' ''b'' (deep_run 14) (deep_run (Suc 14))"
  using step.producer_close [of "deep_run 14" "[]"
      go_deep "''h/o/r''" "''b''"]
  by (simp add: deep_run_def snapshot_def)

lemma deep_step_15: "step go_deep ''h/o/r'' ''b'' (deep_run 15) (deep_run (Suc 15))"
  using step.consumer_finish [of "deep_run 15"
      go_deep "''h/o/r''" "''b''"]
  by (simp add: deep_run_def snapshot_def)

lemma deep_run_reachable:
  "reachable go_deep ''h/o/r'' ''b'' (deep_run 8)"
  "reachable go_deep ''h/o/r'' ''b'' (deep_run 12)"
  "reachable go_deep ''h/o/r'' ''b'' (deep_run 13)"
  "reachable go_deep ''h/o/r'' ''b'' (deep_run 15)"
proof -
  let ?reach = "reachable go_deep ''h/o/r'' ''b''"
  note next_state = reachable.reachable_step [of go_deep "''h/o/r''" "''b''"]
  have "deep_run 0 = initial"
    by (simp add: deep_run_def snapshot_def initial_def producer_program_def
        extractHostnamesFromGiteaRepository_def)
  have S: "Suc 0 = 1" "Suc 1 = 2" "Suc 2 = 3" "Suc 3 = 4" "Suc 4 = 5" "Suc 5 = 6" "Suc 6 = 7"
    "Suc 7 = 8" "Suc 8 = 9" "Suc 9 = 10" "Suc 10 = 11" "Suc 11 = 12" "Suc 12 = 13"
    "Suc 13 = 14" "Suc 14 = 15"
    by simp_all
  from \<open>deep_run 0 = initial\<close> have r0: "?reach (deep_run 0)"
    using reachable.reachable_initial [of go_deep "''h/o/r''" "''b''"] by simp
  have r1: "?reach (deep_run 1)" using next_state [OF r0 deep_step_0] unfolding S .
  have r2: "?reach (deep_run 2)" using next_state [OF r1 deep_step_1] unfolding S .
  have r3: "?reach (deep_run 3)" using next_state [OF r2 deep_step_2] unfolding S .
  have r4: "?reach (deep_run 4)" using next_state [OF r3 deep_step_3] unfolding S .
  have r5: "?reach (deep_run 5)" using next_state [OF r4 deep_step_4] unfolding S .
  have r6: "?reach (deep_run 6)" using next_state [OF r5 deep_step_5] unfolding S .
  have r7: "?reach (deep_run 7)" using next_state [OF r6 deep_step_6] unfolding S .
  show r8: "?reach (deep_run 8)" using next_state [OF r7 deep_step_7] unfolding S .
  have r9: "?reach (deep_run 9)" using next_state [OF r8 deep_step_8] unfolding S .
  have r10: "?reach (deep_run 10)" using next_state [OF r9 deep_step_9] unfolding S .
  have r11: "?reach (deep_run 11)" using next_state [OF r10 deep_step_10] unfolding S .
  show r12: "?reach (deep_run 12)" using next_state [OF r11 deep_step_11] unfolding S .
  show r13: "?reach (deep_run 13)" using next_state [OF r12 deep_step_12] unfolding S .
  have r14: "?reach (deep_run 14)" using next_state [OF r13 deep_step_13] unfolding S .
  show r15: "?reach (deep_run 15)" using next_state [OF r14 deep_step_14] unfolding S .
qed

theorem close_after_all_branches_witness:
  "reachable go_deep ''h/o/r'' ''b'' (deep_run 8)
   \<and> map snd (branches (deep_run 8))
       = [[WgDone], [WgDone], [Send deep_record, WgDone], [WgDone]]
   \<and> \<not> closed (deep_run 8) \<and> 0 < counter (deep_run 8)
   \<and> reachable go_deep ''h/o/r'' ''b'' (deep_run 12)
   \<and> branches (deep_run 12) = [([], []), (''a'', []), (''a/b'', [WgDone]), (''c'', [])]
   \<and> \<not> closed (deep_run 12) \<and> 0 < counter (deep_run 12)
   \<and> (\<exists>s'. step go_deep ''h/o/r'' ''b'' (deep_run 12) s')
   \<and> reachable go_deep ''h/o/r'' ''b'' (deep_run 13)
   \<and> branches (deep_run 13) = [([], []), (''a'', []), (''a/b'', []), (''c'', [])]
   \<and> (\<exists>s1 s2 s3. step go_deep ''h/o/r'' ''b'' (deep_run 13) s1
         \<and> step go_deep ''h/o/r'' ''b'' s1 s2 \<and> step go_deep ''h/o/r'' ''b'' s2 s3
         \<and> closed s2 \<and> finished s3 \<and> received s3 = [deep_record])
   \<and> reachable go_deep ''h/o/r'' ''b'' (deep_run 15)
   \<and> closed (deep_run 15)
   \<and> map snd (branches (deep_run 15)) = [[], [], [], []]"
proof -
  note T = close_after_all_branches [where w = go_deep and repoURL = "''h/o/r''"
      and branch = "''b''"]
  note T8 = T [where s = "deep_run 8", THEN mp, OF deep_run_reachable(1)]
  note T12 = T [where s = "deep_run 12", THEN mp, OF deep_run_reachable(2)]
  note T13 = T [where s = "deep_run 13", THEN mp, OF deep_run_reachable(3)]
  note T15 = T [where s = "deep_run 15", THEN mp, OF deep_run_reachable(4)]
  have b8: "map snd (branches (deep_run 8))
       = [[WgDone], [WgDone], [Send deep_record, WgDone], [WgDone]]"
    by (simp add: deep_run_def snapshot_def)
  have o8: "\<exists>b\<in>set (branches (deep_run 8)). snd b \<noteq> []"
    by (simp add: deep_run_def snapshot_def)
  have c8: "0 < counter (deep_run 8)"
    by (rule T8 [THEN conjunct2, THEN conjunct1, THEN mp, OF o8])
  have n8: "\<not> closed (deep_run 8)"
    using T8 [THEN conjunct1] o8 by blast
  have b12: "branches (deep_run 12) = [([], []), (''a'', []), (''a/b'', [WgDone]), (''c'', [])]"
    by (simp add: deep_run_def snapshot_def)
  have o12: "\<exists>b\<in>set (branches (deep_run 12)). snd b \<noteq> []"
    by (simp add: b12)
  have c12: "0 < counter (deep_run 12)"
    by (rule T12 [THEN conjunct2, THEN conjunct1, THEN mp, OF o12])
  have n12: "\<not> closed (deep_run 12)"
    using T12 [THEN conjunct1] o12 by blast
  have f12: "\<not> crashed (deep_run 12) \<and> \<not> finished (deep_run 12)"
    by (simp add: deep_run_def snapshot_def)
  have l12: "\<exists>s'. step go_deep ''h/o/r'' ''b'' (deep_run 12) s'"
    by (rule T12 [THEN conjunct2, THEN conjunct2, THEN conjunct2, THEN mp, OF f12])
  have b13: "branches (deep_run 13) = [([], []), (''a'', []), (''a/b'', []), (''c'', [])]"
    by (simp add: deep_run_def snapshot_def)
  have p13: "producer (deep_run 13) = [WgWait, Close]
      \<and> (\<forall>b\<in>set (branches (deep_run 13)). snd b = []) \<and> \<not> crashed (deep_run 13)"
    by (simp add: deep_run_def snapshot_def)
  have r13: "received (deep_run 13) = [deep_record]"
    by (simp add: deep_run_def snapshot_def)
  have e13: "\<exists>s1 s2 s3. step go_deep ''h/o/r'' ''b'' (deep_run 13) s1
         \<and> step go_deep ''h/o/r'' ''b'' s1 s2 \<and> step go_deep ''h/o/r'' ''b'' s2 s3
         \<and> closed s2 \<and> finished s3 \<and> received s3 = received (deep_run 13)"
    by (rule T13 [THEN conjunct2, THEN conjunct2, THEN conjunct1, THEN mp, OF p13,
          THEN conjunct2])
  have cl15: "closed (deep_run 15)"
    by (simp add: deep_run_def snapshot_def)
  have d15: "\<forall>b\<in>set (branches (deep_run 15)). snd b = []"
    by (rule T15 [THEN conjunct1, THEN mp, OF cl15])
  have b15: "map snd (branches (deep_run 15)) = [[], [], [], []]"
    using d15 by (simp add: deep_run_def snapshot_def)
  show ?thesis
    using e13 unfolding r13
    by (intro conjI deep_run_reachable b8 n8 c8 b12 n12 c12 l12 b13 cl15 b15)
qed

section \<open>A run over the small tree\<close>

lemma go_demo_listing_root:
  "getGiteaDirectoryListing go_demo ''h/o/r'' [] ''b'' = Some (Inr demo_root)"
  by (simp add: getGiteaDirectoryListing_def url_defs go_demo_page demo_page_def)
     (simp add: go_demo_def demo_listing_def demo_root_def)

lemma ts_demo_listing_root:
  "getGiteaDirectoryListing_ts ts_demo ''h/o/r'' [] ''b'' = Some demo_root"
  by (simp add: getGiteaDirectoryListing_ts_def url_defs ts_demo_page demo_page_def)
     (simp add: ts_demo_def demo_listing_def demo_root_def)

lemma go_demo_record:
  "processSiteDirectory go_demo ''h/o/r'' ''root'' ''b'' = Some demo_record"
  unfolding processSiteDirectory_def go_demo_listing_sub
  by (simp add: demo_sub_def isBMNodeFile_def url_defs go_demo_page demo_page_def re_defs
      demo_record_def)

lemma ts_demo_record:
  "processSiteDirectory_ts ts_demo ''h/o/r'' ''root'' ''b'' = Some demo_record_ts"
  unfolding processSiteDirectory_ts_def ts_demo_listing_sub
  by (simp add: demo_sub_def isBMNodeFile_ts_def url_defs ts_demo_page demo_page_def re_defs
      demo_record_ts_def)

lemma ts_demo_record_top:
  "processSiteDirectory_ts ts_demo ''h/o/r'' [] ''b'' = Some demo_record_top"
  unfolding processSiteDirectory_ts_def ts_demo_listing_root
  by (simp add: demo_root_def isBMNodeFile_ts_def url_defs ts_demo_page demo_page_def re_defs
      demo_record_top_def)

lemma demo_sites:
  "isSiteDirectory demo_root" "isSiteDirectory demo_sub"
  "isSiteDirectory_ts demo_root" "isSiteDirectory_ts demo_sub"
  by (simp_all add: demo_root_def demo_sub_def isBMNodeFile_def isBMNodeFile_ts_def
      isSiteDirectory_ts_def re_defs)

lemma go_demo_discover_top:
  "discoverSitesRecursively go_demo ''h/o/r'' [] ''b''
     = [Send demo_record, WgAdd, Go ''root'', WgDone]"
  unfolding discoverSitesRecursively_def go_demo_listing_root
  by (simp add: demo_sites go_demo_record) (simp add: demo_root_def)

lemma go_demo_discover_sub:
  "discoverSitesRecursively go_demo ''h/o/r'' ''root'' ''b'' = [Send demo_record, WgDone]"
  unfolding discoverSitesRecursively_def go_demo_listing_sub
  by (simp add: demo_sites go_demo_record) (simp add: demo_sub_def)

lemma ts_demo_walk:
  "extractHostnamesFromGiteaRepository_ts 2 ts_demo ''h/o/r'' ''b''
     = Some [(''root'', demo_record_ts)]"
proof -
  have sub: "discoverSitesRecursively_ts (Suc 0) ts_demo ''h/o/r'' ''root'' ''b'' m
      = Some (Map_set ''root'' demo_record_ts m)" for m
    by (simp add: ts_demo_listing_sub demo_sites ts_demo_record) (simp add: demo_sub_def)
  have "discoverSitesRecursively_ts (Suc (Suc 0)) ts_demo ''h/o/r'' [] ''b'' []
      = Some [(''root'', demo_record_ts)]"
    apply (subst discoverSitesRecursively_ts.simps)
    apply (simp add: ts_demo_listing_root demo_sites ts_demo_record_top
        del: discoverSitesRecursively_ts.simps)
    apply (simp add: demo_root_def sub del: discoverSitesRecursively_ts.simps)
    done
  then show ?thesis
    by (simp add: extractHostnamesFromGiteaRepository_ts_def numeral_2_eq_2)
qed

lemma demo_step_0: "step go_demo ''h/o/r'' ''b'' (demo_run 0) (demo_run (Suc 0))"
  using step.producer_add [of "demo_run 0" "[Go [], WgWait, Close]" go_demo "''h/o/r''" "''b''"]
  by (simp add: demo_run_def snapshot_def)

lemma demo_step_1: "step go_demo ''h/o/r'' ''b'' (demo_run 1) (demo_run (Suc 1))"
  using step.producer_go [of "demo_run 1" "[]" "[WgWait, Close]" go_demo "''h/o/r''" "''b''"]
  by (simp add: demo_run_def snapshot_def go_demo_discover_top)

lemma demo_step_2: "step go_demo ''h/o/r'' ''b'' (demo_run 2) (demo_run (Suc 2))"
  using step.branch_send [of "demo_run 2" "[]" "[]" demo_record
      "[WgAdd, Go ''root'', WgDone]" "[]" go_demo "''h/o/r''" "''b''"]
  by (simp add: demo_run_def snapshot_def)

lemma demo_step_3: "step go_demo ''h/o/r'' ''b'' (demo_run 3) (demo_run (Suc 3))"
  using step.branch_add [of "demo_run 3" "[]" "[]" "[Go ''root'', WgDone]" "[]"
      go_demo "''h/o/r''" "''b''"]
  by (simp add: demo_run_def snapshot_def)

lemma demo_step_4: "step go_demo ''h/o/r'' ''b'' (demo_run 4) (demo_run (Suc 4))"
  using step.branch_go [of "demo_run 4" "[]" "[]" "''root''" "[WgDone]" "[]"
      go_demo "''h/o/r''" "''b''"]
  by (simp add: demo_run_def snapshot_def go_demo_discover_sub)

lemma demo_step_5: "step go_demo ''h/o/r'' ''b'' (demo_run 5) (demo_run (Suc 5))"
  using step.branch_done [of "demo_run 5" "[]" "[]" "[]"
      "[(''root'', [Send demo_record, WgDone])]" go_demo "''h/o/r''" "''b''"]
  by (simp add: demo_run_def snapshot_def)

lemma demo_step_6: "step go_demo ''h/o/r'' ''b'' (demo_run 6) (demo_run (Suc 6))"
  using step.branch_send [of "demo_run 6" "[([], [])]" "''root''" demo_record
      "[WgDone]" "[]" go_demo "''h/o/r''" "''b''"]
  by (simp add: demo_run_def snapshot_def)

lemma demo_step_7: "step go_demo ''h/o/r'' ''b'' (demo_run 7) (demo_run (Suc 7))"
  using step.branch_done [of "demo_run 7" "[([], [])]" "''root''" "[]" "[]"
      go_demo "''h/o/r''" "''b''"]
  by (simp add: demo_run_def snapshot_def)

lemma demo_step_8: "step go_demo ''h/o/r'' ''b'' (demo_run 8) (demo_run (Suc 8))"
  using step.producer_wait [of "demo_run 8" "[Close]" go_demo "''h/o/r''" "''b''"]
  by (simp add: demo_run_def snapshot_def)

lemma demo_step_9: "step go_demo ''h/o/r'' ''b'' (demo_run 9) (demo_run (Suc 9))"
  using step.producer_close [of "demo_run 9" "[]" go_demo "''h/o/r''" "''b''"]
  by (simp add: demo_run_def snapshot_def)

lemma demo_step_10: "step go_demo ''h/o/r'' ''b'' (demo_run 10) (demo_run (Suc 10))"
  using step.consumer_finish [of "demo_run 10" go_demo "''h/o/r''" "''b''"]
  by (simp add: demo_run_def snapshot_def)

lemma demo_run_runs:
  "run go_demo ''h/o/r'' ''b'' 5 (demo_run 5)" "run go_demo ''h/o/r'' ''b'' 11 (demo_run 11)"
proof -
  let ?run = "run go_demo ''h/o/r'' ''b''"
  have "demo_run 0 = initial"
    by (simp add: demo_run_def snapshot_def initial_def producer_program_def
        extractHostnamesFromGiteaRepository_def)
  have S: "Suc 0 = 1" "Suc 1 = 2" "Suc 2 = 3" "Suc 3 = 4" "Suc 4 = 5" "Suc 5 = 6" "Suc 6 = 7"
    "Suc 7 = 8" "Suc 8 = 9" "Suc 9 = 10" "Suc 10 = 11"
    by simp_all
  from \<open>demo_run 0 = initial\<close> have r0: "?run 0 (demo_run 0)"
    using run.run_initial [of go_demo "''h/o/r''" "''b''"] by simp
  have r1: "?run 1 (demo_run 1)" using run.run_step [OF r0 demo_step_0] unfolding S .
  have r2: "?run 2 (demo_run 2)" using run.run_step [OF r1 demo_step_1] unfolding S .
  have r3: "?run 3 (demo_run 3)" using run.run_step [OF r2 demo_step_2] unfolding S .
  have r4: "?run 4 (demo_run 4)" using run.run_step [OF r3 demo_step_3] unfolding S .
  show r5: "?run 5 (demo_run 5)" using run.run_step [OF r4 demo_step_4] unfolding S .
  have r6: "?run 6 (demo_run 6)" using run.run_step [OF r5 demo_step_5] unfolding S .
  have r7: "?run 7 (demo_run 7)" using run.run_step [OF r6 demo_step_6] unfolding S .
  have r8: "?run 8 (demo_run 8)" using run.run_step [OF r7 demo_step_7] unfolding S .
  have r9: "?run 9 (demo_run 9)" using run.run_step [OF r8 demo_step_8] unfolding S .
  have r10: "?run 10 (demo_run 10)" using run.run_step [OF r9 demo_step_9] unfolding S .
  show "?run 11 (demo_run 11)" using run.run_step [OF r10 demo_step_10] unfolding S .
qed

text \<open>
  Claim C10.  In the small tree the root is a site and so is its subdirectory named
  \<open>root\<close>.  A complete run of the Go program publishes one record for the root
  directory and one for the subdirectory, and both carry the path \<open>root\<close>.  The
  TypeScript walk sets the root's record under the key \<open>root\<close> and then the
  subdirectory's record under the same key: the map it returns has the one entry of the
  subdirectory.
\<close>

theorem root_sentinel_not_reserved:
  "(\<exists>s. run go_demo ''h/o/r'' ''b'' 11 s \<and> finished s
      \<and> trace s = [Published [] demo_record, Spawned [] ''root'',
                   Published ''root'' demo_record]
      \<and> map SitePath (received s) = [''root'', ''root''])
   \<and> isSiteDirectory_ts demo_root
   \<and> getGiteaDirectoryListing_ts ts_demo ''h/o/r'' [] ''b'' = Some demo_root
   \<and> processSiteDirectory_ts ts_demo ''h/o/r'' [] ''b'' = Some demo_record_top
   \<and> processSiteDirectory_ts ts_demo ''h/o/r'' ''root'' ''b'' = Some demo_record_ts
   \<and> extractHostnamesFromGiteaRepository_ts 2 ts_demo ''h/o/r'' ''b''
      = Some [(''root'', demo_record_ts)]"
proof -
  have r: "run go_demo ''h/o/r'' ''b'' 11 (demo_run 11)" by (rule demo_run_runs(2))
  have f: "finished (demo_run 11)" by (simp add: demo_run_def snapshot_def)
  have t: "trace (demo_run 11) = [Published [] demo_record, Spawned [] ''root'',
                   Published ''root'' demo_record]"
    by (simp add: demo_run_def snapshot_def)
  have m: "map SitePath (received (demo_run 11)) = [''root'', ''root'']"
    by (simp add: demo_run_def snapshot_def demo_record_def)
  have go: "\<exists>s. run go_demo ''h/o/r'' ''b'' 11 s \<and> finished s
      \<and> trace s = [Published [] demo_record, Spawned [] ''root'',
                   Published ''root'' demo_record]
      \<and> map SitePath (received s) = [''root'', ''root'']"
    by (rule exI [of _ "demo_run 11"]) (intro conjI r f t m)
  show ?thesis
    by (intro conjI go demo_sites(3) ts_demo_listing_root ts_demo_record_top ts_demo_record
        ts_demo_walk)
qed

section \<open>Publication before the children\<close>

lemma sends_of_discover:
  assumes "discoverSitesRecursively w repoURL p branch = done @ Go d # rest"
    and "Send i \<in> set (discoverSitesRecursively w repoURL p branch)"
  shows "Send i \<in> set done"
proof -
  obtain spawns where f: "discoverSitesRecursively w repoURL p branch = Send i # spawns"
    and ns: "Send i \<notin> set spawns"
    using assms(2)
    by (auto simp: discoverSitesRecursively_def Let_def
        split: option.splits sum.splits if_splits)
  have "done \<noteq> []"
  proof
    assume "done = []"
    then show False using assms(1) f by simp
  qed
  then obtain x xs where "done = x # xs" by (cases "done") auto
  then have "x = Send i" using assms(1) f by simp
  then show ?thesis using \<open>done = x # xs\<close> by simp
qed

lemma snoc_split:
  "xs @ [e] = earlier @ x # later \<Longrightarrow>
   (later = [] \<and> xs = earlier \<and> e = x) \<or> (\<exists>l. later = l @ [e] \<and> xs = earlier @ x # l)"
  by (cases later rule: rev_cases) auto

lemma in_order_initial: "in_order w repoURL branch initial"
  by (simp add: in_order_def initial_def)

lemma in_order_branch_move:
  assumes b: "branches s = xs @ (p, a # r) # ys"
    and old: "\<forall>b\<in>set (branches s). \<exists>done.
          discoverSitesRecursively w repoURL (fst b) branch = done @ snd b
          \<and> (\<forall>i. Send i \<in> set done \<longrightarrow> Published (fst b) i \<in> set tr)"
    and grow: "set tr \<subseteq> set tr'"
    and new: "\<forall>i. a = Send i \<longrightarrow> Published p i \<in> set tr'"
  shows "\<forall>b\<in>set (xs @ (p, r) # ys). \<exists>done.
          discoverSitesRecursively w repoURL (fst b) branch = done @ snd b
          \<and> (\<forall>i. Send i \<in> set done \<longrightarrow> Published (fst b) i \<in> set tr')"
proof
  fix c assume c: "c \<in> set (xs @ (p, r) # ys)"
  show "\<exists>done. discoverSitesRecursively w repoURL (fst c) branch = done @ snd c
          \<and> (\<forall>i. Send i \<in> set done \<longrightarrow> Published (fst c) i \<in> set tr')"
  proof (cases "c = (p, r)")
    case True
    have "(p, a # r) \<in> set (branches s)" using b by simp
    then obtain dn where dn: "discoverSitesRecursively w repoURL p branch = dn @ a # r"
      "\<forall>i. Send i \<in> set dn \<longrightarrow> Published p i \<in> set tr"
      using old by fastforce
    have "discoverSitesRecursively w repoURL p branch = (dn @ [a]) @ r" using dn(1) by simp
    moreover have "\<forall>i. Send i \<in> set (dn @ [a]) \<longrightarrow> Published p i \<in> set tr'"
      using dn(2) grow new by auto
    ultimately show ?thesis using True by fastforce
  next
    case False
    then have "c \<in> set (branches s)" using c b by auto
    then show ?thesis using old grow by fastforce
  qed
qed

lemma in_order_step:
  assumes inv: "in_order w repoURL branch s" and st: "step w repoURL branch s s'"
  shows "in_order w repoURL branch s'"
proof -
  have old: "\<forall>b\<in>set (branches s). \<exists>done.
          discoverSitesRecursively w repoURL (fst b) branch = done @ snd b
          \<and> (\<forall>i. Send i \<in> set done \<longrightarrow> Published (fst b) i \<in> set (trace s))"
    and tro: "\<forall>earlier p d later. trace s = earlier @ Spawned p d # later \<longrightarrow>
            (\<forall>i. Send i \<in> set (discoverSitesRecursively w repoURL p branch)
                 \<longrightarrow> Published p i \<in> set earlier)"
    using inv by (simp_all add: in_order_def)
  have fresh: "\<exists>done. discoverSitesRecursively w repoURL q branch
        = done @ discoverSitesRecursively w repoURL q branch
      \<and> (\<forall>i. Send i \<in> set done \<longrightarrow> Published q i \<in> set tr)" for q tr
    by (rule exI [of _ "[]"]) simp
  from st show ?thesis
  proof (cases rule: step.cases)
    case (producer_add r)
    then show ?thesis using inv by (simp add: in_order_def)
  next
    case (producer_go p r)
    then show ?thesis using old tro fresh by (auto simp: in_order_def)
  next
    case (producer_wait r)
    then show ?thesis using inv by (simp add: in_order_def)
  next
    case (producer_close r)
    then show ?thesis using inv by (simp add: in_order_def)
  next
    case (producer_close_closed r)
    then show ?thesis using inv by (simp add: in_order_def)
  next
    case (branch_send xs p siteInfo r ys)
    have 1: "\<forall>b\<in>set (xs @ (p, r) # ys). \<exists>done.
          discoverSitesRecursively w repoURL (fst b) branch = done @ snd b
          \<and> (\<forall>i. Send i \<in> set done
              \<longrightarrow> Published (fst b) i \<in> set (trace s @ [Published p siteInfo]))"
      by (rule in_order_branch_move [OF branch_send(3) old]) auto
    have 2: "\<forall>earlier q d later.
        trace s @ [Published p siteInfo] = earlier @ Spawned q d # later \<longrightarrow>
            (\<forall>i. Send i \<in> set (discoverSitesRecursively w repoURL q branch)
                 \<longrightarrow> Published q i \<in> set earlier)"
    proof (intro allI impI)
      fix earlier q d later i
      assume e: "trace s @ [Published p siteInfo] = earlier @ Spawned q d # later"
        and i: "Send i \<in> set (discoverSitesRecursively w repoURL q branch)"
      from snoc_split [OF e] obtain l where "trace s = earlier @ Spawned q d # l" by auto
      then show "Published q i \<in> set earlier" using tro i by blast
    qed
    show ?thesis using branch_send(1) 1 2 by (simp add: in_order_def)
  next
    case (branch_send_closed xs p siteInfo r ys)
    then show ?thesis using inv by (simp add: in_order_def)
  next
    case (branch_add xs p r ys)
    have "\<forall>b\<in>set (xs @ (p, r) # ys). \<exists>done.
          discoverSitesRecursively w repoURL (fst b) branch = done @ snd b
          \<and> (\<forall>i. Send i \<in> set done \<longrightarrow> Published (fst b) i \<in> set (trace s))"
      by (rule in_order_branch_move [OF branch_add(3) old]) auto
    then show ?thesis using branch_add(1) tro by (simp add: in_order_def)
  next
    case (branch_go xs p d r ys)
    have 1: "\<forall>b\<in>set (xs @ (p, r) # ys). \<exists>done.
          discoverSitesRecursively w repoURL (fst b) branch = done @ snd b
          \<and> (\<forall>i. Send i \<in> set done
              \<longrightarrow> Published (fst b) i \<in> set (trace s @ [Spawned p d]))"
      by (rule in_order_branch_move [OF branch_go(3) old]) auto
    have "(p, Go d # r) \<in> set (branches s)" using branch_go(3) by simp
    then obtain dn where dn: "discoverSitesRecursively w repoURL p branch = dn @ Go d # r"
      "\<forall>i. Send i \<in> set dn \<longrightarrow> Published p i \<in> set (trace s)"
      using old by fastforce
    have 2: "\<forall>earlier q e later.
        trace s @ [Spawned p d] = earlier @ Spawned q e # later \<longrightarrow>
            (\<forall>i. Send i \<in> set (discoverSitesRecursively w repoURL q branch)
                 \<longrightarrow> Published q i \<in> set earlier)"
    proof (intro allI impI)
      fix earlier q e later i
      assume eq: "trace s @ [Spawned p d] = earlier @ Spawned q e # later"
        and i: "Send i \<in> set (discoverSitesRecursively w repoURL q branch)"
      from snoc_split [OF eq] consider "later = []" "trace s = earlier" "p = q"
        | l where "trace s = earlier @ Spawned q e # l"
        by auto
      then show "Published q i \<in> set earlier"
      proof cases
        case 1
        then show ?thesis using sends_of_discover [OF dn(1)] dn(2) i by auto
      next
        case 2
        then show ?thesis using tro i by blast
      qed
    qed
    have 3: "\<forall>b\<in>set (xs @ (p, r) # ys @ [(d, discoverSitesRecursively w repoURL d branch)]).
        \<exists>done. discoverSitesRecursively w repoURL (fst b) branch = done @ snd b
          \<and> (\<forall>i. Send i \<in> set done
              \<longrightarrow> Published (fst b) i \<in> set (trace s @ [Spawned p d]))"
    proof
      fix c assume "c \<in> set (xs @ (p, r) # ys @ [(d, discoverSitesRecursively w repoURL d branch)])"
      then consider "c \<in> set (xs @ (p, r) # ys)"
        | "c = (d, discoverSitesRecursively w repoURL d branch)" by auto
      then show "\<exists>done. discoverSitesRecursively w repoURL (fst c) branch = done @ snd c
          \<and> (\<forall>i. Send i \<in> set done
              \<longrightarrow> Published (fst c) i \<in> set (trace s @ [Spawned p d]))"
      proof cases
        case 1
        then show ?thesis using \<open>\<forall>b\<in>set (xs @ (p, r) # ys). _\<close> by blast
      next
        case 2
        then show ?thesis using fresh [of d] by simp
      qed
    qed
    show ?thesis using branch_go(1) 2 3 by (simp add: in_order_def)
  next
    case (branch_done xs p r ys)
    have "\<forall>b\<in>set (xs @ (p, r) # ys). \<exists>done.
          discoverSitesRecursively w repoURL (fst b) branch = done @ snd b
          \<and> (\<forall>i. Send i \<in> set done \<longrightarrow> Published (fst b) i \<in> set (trace s))"
      by (rule in_order_branch_move [OF branch_done(3) old]) auto
    then show ?thesis using branch_done(1) tro by (simp add: in_order_def)
  next
    case (branch_done_negative xs p r ys)
    then show ?thesis using inv by (simp add: in_order_def)
  next
    case (branch_panic xs p r ys)
    then show ?thesis using inv by (simp add: in_order_def)
  next
    case consumer_finish
    then show ?thesis using inv by (simp add: in_order_def)
  qed
qed

lemma reachable_in_order: "reachable w repoURL branch s \<Longrightarrow> in_order w repoURL branch s"
  by (induction rule: reachable.induct) (auto intro: in_order_initial in_order_step)

lemma site_sends_record:
  assumes "getGiteaDirectoryListing w repoURL p branch = Some (Inr items)"
    and "isSiteDirectory items"
    and "processSiteDirectory w repoURL (if p = [] then ''root'' else p) branch = Some siteInfo"
  shows "Send siteInfo \<in> set (discoverSitesRecursively w repoURL p branch)"
  using assms by (simp add: discoverSitesRecursively_def)

text \<open>
  Claim C8.  Go: in the trace of every reachable state, the start of a child branch of a
  site directory comes after the publication of that directory's record.  TypeScript:
  the walk of a site directory is the walk of its subdirectories, in order, started from
  the map in which the directory's record has already been set.
\<close>

theorem published_before_children:
  "(reachable w repoURL branch s \<and> trace s = earlier @ Spawned p d # later
     \<and> getGiteaDirectoryListing w repoURL p branch = Some (Inr items) \<and> isSiteDirectory items
     \<and> processSiteDirectory w repoURL (if p = [] then ''root'' else p) branch = Some siteInfo
    \<longrightarrow> Published p siteInfo \<in> set earlier)
   \<and> (getGiteaDirectoryListing_ts tw repoUrl tsPath tsBranch = Some tsItems
     \<and> isSiteDirectory_ts tsItems
     \<and> processSiteDirectory_ts tw repoUrl tsPath tsBranch = Some tsInfo
    \<longrightarrow> discoverSitesRecursively_ts (Suc fuel) tw repoUrl tsPath tsBranch siteMap
        = forEach
            (\<lambda>subdir. discoverSitesRecursively_ts fuel tw repoUrl
               (if tsPath \<noteq> [] then tsPath @ ''/'' @ Name subdir else Name subdir) tsBranch)
            (filter (\<lambda>item. Type item = ''dir'') tsItems)
            (Map_set (if tsPath \<noteq> [] then tsPath else ''root'') tsInfo siteMap))"
proof (intro conjI impI)
  assume a: "reachable w repoURL branch s \<and> trace s = earlier @ Spawned p d # later
     \<and> getGiteaDirectoryListing w repoURL p branch = Some (Inr items) \<and> isSiteDirectory items
     \<and> processSiteDirectory w repoURL (if p = [] then ''root'' else p) branch = Some siteInfo"
  then have "in_order w repoURL branch s" using reachable_in_order by blast
  then have ordered: "\<forall>earlier p d later. trace s = earlier @ Spawned p d # later \<longrightarrow>
      (\<forall>i. Send i \<in> set (discoverSitesRecursively w repoURL p branch)
           \<longrightarrow> Published p i \<in> set earlier)"
    by (simp add: in_order_def)
  have "Send siteInfo \<in> set (discoverSitesRecursively w repoURL p branch)"
    using a site_sends_record by blast
  moreover have "trace s = earlier @ Spawned p d # later" using a by blast
  ultimately show "Published p siteInfo \<in> set earlier"
    using ordered by blast
next
  assume "getGiteaDirectoryListing_ts tw repoUrl tsPath tsBranch = Some tsItems
     \<and> isSiteDirectory_ts tsItems
     \<and> processSiteDirectory_ts tw repoUrl tsPath tsBranch = Some tsInfo"
  then show "discoverSitesRecursively_ts (Suc fuel) tw repoUrl tsPath tsBranch siteMap
        = forEach
            (\<lambda>subdir. discoverSitesRecursively_ts fuel tw repoUrl
               (if tsPath \<noteq> [] then tsPath @ ''/'' @ Name subdir else Name subdir) tsBranch)
            (filter (\<lambda>item. Type item = ''dir'') tsItems)
            (Map_set (if tsPath \<noteq> [] then tsPath else ''root'') tsInfo siteMap)"
    by simp
qed

theorem published_before_children_witness:
  "reachable go_demo ''h/o/r'' ''b'' (demo_run 5)
   \<and> trace (demo_run 5) = [Published [] demo_record] @ Spawned [] ''root'' # []
   \<and> Published [] demo_record \<in> set [Published [] demo_record]
   \<and> discoverSitesRecursively_ts (Suc (Suc 0)) ts_demo ''h/o/r'' [] ''b'' []
        = forEach
            (\<lambda>subdir. discoverSitesRecursively_ts (Suc 0) ts_demo ''h/o/r''
               (if [] \<noteq> ([]::string) then [] @ ''/'' @ Name subdir else Name subdir) ''b'')
            (filter (\<lambda>item. Type item = ''dir'') demo_root)
            (Map_set (if [] \<noteq> ([]::string) then [] else ''root'') demo_record_top [])"
proof -
  have r: "reachable go_demo ''h/o/r'' ''b'' (demo_run 5)"
    using demo_run_runs(1) by (rule run_reachable)
  have t: "trace (demo_run 5) = [Published [] demo_record] @ Spawned [] ''root'' # []"
    by (simp add: demo_run_def snapshot_def)
  have p: "processSiteDirectory go_demo ''h/o/r'' (if [] = ([]::string) then ''root'' else [])
      ''b'' = Some demo_record"
    using go_demo_record by simp
  note T = published_before_children [where w = go_demo and repoURL = "''h/o/r''"
      and branch = "''b''" and s = "demo_run 5" and earlier = "[Published [] demo_record]"
      and p = "[]" and d = "''root''" and later = "[]" and items = demo_root
      and siteInfo = demo_record and tw = ts_demo and repoUrl = "''h/o/r''" and tsPath = "[]"
      and tsBranch = "''b''" and tsItems = demo_root and tsInfo = demo_record_top
      and fuel = "Suc 0" and siteMap = "[]"]
  have g: "Published [] demo_record \<in> set [Published [] demo_record]"
    by (rule T [THEN conjunct1, THEN mp])
       (intro conjI r t go_demo_listing_root demo_sites(1) p)
  have ts: "discoverSitesRecursively_ts (Suc (Suc 0)) ts_demo ''h/o/r'' [] ''b'' []
        = forEach
            (\<lambda>subdir. discoverSitesRecursively_ts (Suc 0) ts_demo ''h/o/r''
               (if [] \<noteq> ([]::string) then [] @ ''/'' @ Name subdir else Name subdir) ''b'')
            (filter (\<lambda>item. Type item = ''dir'') demo_root)
            (Map_set (if [] \<noteq> ([]::string) then [] else ''root'') demo_record_top [])"
    by (rule T [THEN conjunct2, THEN mp])
       (intro conjI ts_demo_listing_root demo_sites(3) ts_demo_record_top)
  show ?thesis by (intro conjI r t g ts)
qed

end
